theory Spec2Isabelle
  imports Main
begin

section \<open>Python strings\<close>

text \<open>
  A Python \<open>str\<close> is a sequence of Unicode code points, so a string is a list of
  natural numbers here. \<open>ascii\<close> turns an ASCII literal into such a string.
\<close>

type_synonym codepoint = nat
type_synonym str = "codepoint list"

definition ascii :: "string \<Rightarrow> str" where
  "ascii s = map of_char s"

definition LF :: codepoint where "LF = 10"
definition CR :: codepoint where "CR = 13"

text \<open>
  The characters \<open>str.strip()\<close> removes when called without an argument: the
  code points for which \<open>str.isspace()\<close> holds.
\<close>

definition isspace :: "codepoint \<Rightarrow> bool" where
  "isspace c \<longleftrightarrow>
     (9 \<le> c \<and> c \<le> 13) \<or> (28 \<le> c \<and> c \<le> 32) \<or> c = 133 \<or> c = 160 \<or> c = 5760 \<or>
     (8192 \<le> c \<and> c \<le> 8202) \<or> c = 8232 \<or> c = 8233 \<or> c = 8239 \<or> c = 8287 \<or> c = 12288"

definition strip :: "str \<Rightarrow> str" where
  "strip s = dropWhile isspace (rev (dropWhile isspace (rev s)))"

text \<open>\<open>sep.join(xs)\<close>.\<close>

fun join :: "str \<Rightarrow> str list \<Rightarrow> str" where
  "join sep [] = []"
| "join sep [x] = x"
| "join sep (x # y # ys) = x @ sep @ join sep (y # ys)"

text \<open>
  \<open>re.sub\<close> for a pattern that is one character class: every character of the class
  is replaced by \<open>repl\<close>, every other character is copied.
\<close>

fun re_sub_class :: "codepoint list \<Rightarrow> str \<Rightarrow> str \<Rightarrow> str" where
  "re_sub_class cls repl [] = []"
| "re_sub_class cls repl (c # cs) =
     (if c \<in> set cls then repl @ re_sub_class cls repl cs
      else c # re_sub_class cls repl cs)"

section \<open>Text files\<close>

text \<open>
  A file opened in text mode with the default \<open>newline=None\<close> is read with universal
  newlines: \<open>\r\n\<close> and a lone \<open>\r\<close> both arrive as \<open>\n\<close>. Iterating over the file
  yields its lines, each with its terminating \<open>\n\<close> (the last line has none when the
  file does not end in a line break).
\<close>

fun universal_newlines :: "str \<Rightarrow> str" where
  "universal_newlines [] = []"
| "universal_newlines [c] = [if c = CR then LF else c]"
| "universal_newlines (c # d # cs) =
     (if c = CR \<and> d = LF then LF # universal_newlines cs
      else (if c = CR then LF else c) # universal_newlines (d # cs))"

fun file_lines :: "str \<Rightarrow> str list" where
  "file_lines [] = []"
| "file_lines (c # cs) =
     (if c = LF then [c] # file_lines cs
      else (case file_lines cs of [] \<Rightarrow> [[c]] | l # ls \<Rightarrow> (c # l) # ls))"

definition read_lines :: "str \<Rightarrow> str list" where
  "read_lines text = file_lines (universal_newlines text)"

section \<open>The file system the program touches\<close>

text \<open>
  \<open>PROCESSED_VIDEOS_FILE\<close> is a path that names nothing, a directory, or a regular
  file with read and write permission bits and its decoded text. \<open>SUMMARIES_DIR\<close> is
  a path that names nothing, something that is not a directory, or a directory with its
  files. Line breaks are written as they are (a POSIX platform), and creating a file in
  the working directory succeeds.
\<close>

datatype path_state = Missing | Directory | Regular bool bool str

datatype dir_state = NoDir | NotDir | Dir "str \<rightharpoonup> str"

datatype exn =
    ValueError str
  | PermissionError
  | IsADirectoryError
  | FileExistsError
  | FileNotFoundError
  | NotADirectoryError
  | ServiceError str

fun exn_str :: "exn \<Rightarrow> str" where
  "exn_str (ValueError m) = m"
| "exn_str PermissionError = ascii ''[Errno 13] Permission denied''"
| "exn_str IsADirectoryError = ascii ''[Errno 21] Is a directory''"
| "exn_str FileExistsError = ascii ''[Errno 17] File exists''"
| "exn_str FileNotFoundError = ascii ''[Errno 2] No such file or directory''"
| "exn_str NotADirectoryError = ascii ''[Errno 20] Not a directory''"
| "exn_str (ServiceError m) = m"

section \<open>Settings\<close>

definition CHANNELS :: "(str \<times> str) list" where
  "CHANNELS =
     [(ascii ''Selcoin'',
       ascii ''https://www.youtube.com/feeds/videos.xml?channel_id=UC-MOi2r4sS_3m_i-D0_M_GA''),
      (ascii ''Bora '' @ [214] @ ascii ''zkent Official'',
       ascii ''https://www.youtube.com/feeds/videos.xml?channel_id=UCy1a2LL6B32Qp5T2D5p11gg'')]"

definition missing_key_message :: str where
  "missing_key_message =
     ascii ''GEMINI_API_KEY not found. Please add it to your repository'' @ [39] @
     ascii ''s GitHub Secrets.''"

text \<open>
  The module-level check: \<open>os.getenv\<close> gives \<open>None\<close> for a variable that is not
  set, and \<open>not API_KEY\<close> holds for \<open>None\<close> and for the empty string.
\<close>

definition load_api_key :: "(str \<rightharpoonup> str) \<Rightarrow> exn + str" where
  "load_api_key environ =
     (case environ (ascii ''GEMINI_API_KEY'') of
        None \<Rightarrow> Inl (ValueError missing_key_message)
      | Some k \<Rightarrow> if k = [] then Inl (ValueError missing_key_message) else Inr k)"

section \<open>The state store\<close>

fun get_processed_videos :: "path_state \<Rightarrow> exn + str set" where
  "get_processed_videos Missing = Inr {}"
| "get_processed_videos Directory = Inr {}"
| "get_processed_videos (Regular r w text) =
     (if r then Inr (set (map strip (read_lines text))) else Inl PermissionError)"

fun save_processed_video :: "str \<Rightarrow> path_state \<Rightarrow> exn + path_state" where
  "save_processed_video video_id Missing = Inr (Regular True True (video_id @ [LF]))"
| "save_processed_video video_id Directory = Inl IsADirectoryError"
| "save_processed_video video_id (Regular r w text) =
     (if w then Inr (Regular r w (text @ video_id @ [LF])) else Inl PermissionError)"

section \<open>File names\<close>

text \<open>The character class of the pattern: \<open>\ / * ? : " < > |\<close>.\<close>

definition forbidden :: "codepoint list" where
  "forbidden = [92, 47, 42, 63, 58, 34, 60, 62, 124]"

definition sanitize_filename :: "str \<Rightarrow> str" where
  "sanitize_filename name = re_sub_class forbidden [] name"

section \<open>External collaborators\<close>

text \<open>
  The feed parser, the transcript service and the generative model are outside the
  program. Each is a function from the request to its answer, an exception being an
  answer: within one run the same request gets the same answer. \<open>artifact_writable\<close>
  says whether the operating system lets a file of that name be written in the summaries
  directory. Of an item of a transcript only its \<open>text\<close> is used; an exception of
  \<open>generate_content\<close> stands also for one raised when the text of the response is
  read, since the same handler catches both.
\<close>

record entry =
  video_id :: str
  title :: str

record transcript_item =
  item_text :: str

record env =
  environ :: "str \<rightharpoonup> str"
  feedparser_parse :: "str \<Rightarrow> entry list"
  get_transcript_api :: "str \<Rightarrow> exn + transcript_item list"
  generate_content :: "str \<Rightarrow> exn + str"
  artifact_writable :: "str \<Rightarrow> bool"

section \<open>Transcript and summary\<close>

text \<open>
  Both functions catch every exception of the service, print one line and return
  \<open>None\<close>. The result is the returned value together with the lines printed.
\<close>

definition get_transcript :: "env \<Rightarrow> str \<Rightarrow> str option \<times> str list" where
  "get_transcript env vid =
     (case get_transcript_api env vid of
        Inr transcript_list \<Rightarrow> (Some (join (ascii '' '') (map item_text transcript_list)), [])
      | Inl e \<Rightarrow>
          (None,
           [ascii ''Error: Could not retrieve transcript for video ID '' @ vid @
            ascii ''. Reason: '' @ exn_str e]))"

definition final_prompt :: "str \<Rightarrow> str \<Rightarrow> str" where
  "final_prompt ttl transcript =
     ([10] @ ascii ''    A'' @ [351] @ ascii ''a'' @ [287] @ [305] @ ascii ''daki metin, '' @ [34])
     @ ttl @
     ([34] @ ascii '' ba'' @ [351] @ ascii ''l'' @ [305] @ ascii ''kl'' @ [305] @
      ascii '' bir YouTube videosunun transkriptidir.'' @ [10] @
      ascii ''    Bu metni, ana fikirleri ve '' @ [246] @ ascii ''nemli noktalar'' @ [305] @
      ascii '' i'' @ [231] @ ascii ''erecek '' @ [351] @
      ascii ''ekilde, profesyonel bir dille ve madde madde olacak '' @ [351] @
      ascii ''ekilde T'' @ [252] @ ascii ''rk'' @ [231] @ ascii ''e olarak '' @ [246] @
      ascii ''zetle.'' @ [10] @ ascii ''    '' @ [214] @ ascii ''zetin ba'' @ [351] @ [305] @
      ascii ''na videonun ana temas'' @ [305] @ ascii ''n'' @ [305] @ ascii '' anlatan k'' @ [305] @
      ascii ''sa bir paragraf ekle.'' @ [10] @ [10] @ ascii ''    MET'' @ [304] @ ascii ''N:'' @
      [10] @ ascii ''    '')
     @ transcript @
     ([10] @ ascii ''    '')"

definition summarize_text :: "env \<Rightarrow> str \<Rightarrow> str \<Rightarrow> str option \<times> str list" where
  "summarize_text env transcript ttl =
     (case generate_content env (final_prompt ttl transcript) of
        Inr response_text \<Rightarrow> (Some response_text, [])
      | Inl e \<Rightarrow>
          (None, [ascii ''Error: Could not summarize with Gemini API. Reason: '' @ exn_str e]))"

section \<open>The run\<close>

text \<open>
  The state of a run: the two paths on disk, the lines printed, the calls made to the
  store, the services and the summary writer in their order, the local set
  \<open>processed_videos\<close> of \<open>main\<close>, and the exception that ended the run, if one
  did. An exception nobody catches ends the run; what is on disk stays.
\<close>

datatype event =
    LoadCalled
  | FeedFetched str
  | TranscriptRequested str
  | SummaryRequested str
  | ArtifactWritten str str
  | ArtifactWriteFailed str str
  | RecordCalled str

record state =
  store :: path_state
  summaries :: dir_state
  stdout :: "str list"
  trace :: "event list"
  processed_videos :: "str set"
  fault :: "exn option"

definition start :: "path_state \<Rightarrow> dir_state \<Rightarrow> state" where
  "start st sm =
     \<lparr>store = st, summaries = sm, stdout = [], trace = [], processed_videos = {},
      fault = None\<rparr>"

text \<open>\<open>SUMMARIES_DIR.mkdir(exist_ok=True)\<close>.\<close>

fun mkdir_exist_ok :: "dir_state \<Rightarrow> exn + dir_state" where
  "mkdir_exist_ok NoDir = Inr (Dir Map.empty)"
| "mkdir_exist_ok NotDir = Inl FileExistsError"
| "mkdir_exist_ok (Dir files) = Inr (Dir files)"

text \<open>
  Modelled from the spec: the Summary Writer, which \<open>src/main.py\<close> does not contain
  (the file ends inside \<open>main\<close>, at the call of the feed parser). The spec (4.3, 6):
  \<open>write(title, content)\<close> derives a file name from the title by stripping the
  characters forbidden in file names and writes the summary under that name in the output
  directory, silently overwriting a file of the same name.
\<close>

definition write_summary :: "env \<Rightarrow> str \<Rightarrow> str \<Rightarrow> dir_state \<Rightarrow> exn + dir_state" where
  "write_summary env ttl summary d =
     (case d of
        Dir files \<Rightarrow>
          if artifact_writable env (sanitize_filename ttl)
          then Inr (Dir (files(sanitize_filename ttl \<mapsto> summary)))
          else Inl PermissionError
      | NoDir \<Rightarrow> Inl FileNotFoundError
      | NotDir \<Rightarrow> Inl NotADirectoryError)"

text \<open>
  Modelled from the spec: step 3d of the orchestrator (4.2), absent from
  \<open>src/main.py\<close>: call \<open>record(video identifier)\<close> on the State Store and add the
  identifier to the in-memory set. A failure of the write to the store is not handled
  (7), so it ends the run.
\<close>

definition mark_processed :: "str \<Rightarrow> state \<Rightarrow> state" where
  "mark_processed vid s =
     (let s1 = s\<lparr>trace := trace s @ [RecordCalled vid]\<rparr>
      in case save_processed_video vid (store s1) of
           Inl x \<Rightarrow> s1\<lparr>fault := Some x\<rparr>
         | Inr st \<Rightarrow> s1\<lparr>store := st, processed_videos := insert vid (processed_videos s1)\<rparr>)"

text \<open>
  Modelled from the spec: steps 3c and 3d of the orchestrator (4.2), absent from
  \<open>src/main.py\<close>: persist the summary via the Summary Writer and, only after
  successful persistence, record the video. A failed write of the artifact is not
  handled either and ends the run.
\<close>

definition persist_and_mark :: "env \<Rightarrow> entry \<Rightarrow> str \<Rightarrow> state \<Rightarrow> state" where
  "persist_and_mark env e summary s =
     (case write_summary env (title e) summary (summaries s) of
        Inl x \<Rightarrow>
          s\<lparr>trace := trace s @ [ArtifactWriteFailed (video_id e) (sanitize_filename (title e))],
            fault := Some x\<rparr>
      | Inr d \<Rightarrow>
          mark_processed (video_id e)
            (s\<lparr>summaries := d,
               trace := trace s @ [ArtifactWritten (video_id e) (sanitize_filename (title e))]\<rparr>))"

text \<open>
  Modelled from the spec: step 3b of the orchestrator (4.2), absent from
  \<open>src/main.py\<close>: summarize the transcript; if the adapter fails, skip the video
  without marking it processed.
\<close>

definition summarize_step :: "env \<Rightarrow> entry \<Rightarrow> str \<Rightarrow> state \<Rightarrow> state" where
  "summarize_step env e transcript s =
     (let (r, out) = summarize_text env transcript (title e);
          s1 = s\<lparr>trace := trace s @ [SummaryRequested (video_id e)], stdout := stdout s @ out\<rparr>
      in case r of
           None \<Rightarrow> s1
         | Some summary \<Rightarrow> persist_and_mark env e summary s1)"

text \<open>
  Modelled from the spec: step 3 of the orchestrator (4.2), absent from
  \<open>src/main.py\<close>: skip the entry if its video identifier is already in the processed
  set; otherwise fetch the transcript and, if it is unavailable, skip the video without
  marking it processed.
\<close>

definition process_entry :: "env \<Rightarrow> entry \<Rightarrow> state \<Rightarrow> state" where
  "process_entry env e s =
     (if video_id e \<in> processed_videos s then s
      else
        let (t, out) = get_transcript env (video_id e);
            s1 = s\<lparr>trace := trace s @ [TranscriptRequested (video_id e)],
                   stdout := stdout s @ out\<rparr>
        in case t of
             None \<Rightarrow> s1
           | Some transcript \<Rightarrow> summarize_step env e transcript s1)"

text \<open>
  Modelled from the spec: the loop over the entries of one feed (4.2, step 3), absent
  from \<open>src/main.py\<close>: the entries are processed in the order the adapter returned
  them, strictly one after the other.
\<close>

fun process_entries :: "env \<Rightarrow> entry list \<Rightarrow> state \<Rightarrow> state" where
  "process_entries env [] s = s"
| "process_entries env (e # es) s =
     (let s' = process_entry env e s
      in case fault s' of Some x \<Rightarrow> s' | None \<Rightarrow> process_entries env es s')"

text \<open>
  The loop over \<open>CHANNELS.items()\<close>: print the channel, parse its feed, process the
  entries.
\<close>

fun process_channels :: "env \<Rightarrow> (str \<times> str) list \<Rightarrow> state \<Rightarrow> state" where
  "process_channels env [] s = s"
| "process_channels env ((channel_name, rss_url) # chans) s =
     (let s1 = s\<lparr>stdout := stdout s @ [[LF] @ ascii ''Checking channel: '' @ channel_name],
                 trace := trace s @ [FeedFetched rss_url]\<rparr>;
          s2 = process_entries env (feedparser_parse env rss_url) s1
      in case fault s2 of Some x \<Rightarrow> s2 | None \<Rightarrow> process_channels env chans s2)"

definition main :: "env \<Rightarrow> path_state \<Rightarrow> dir_state \<Rightarrow> state" where
  "main env st sm =
     (let s0 = (start st sm)\<lparr>stdout := [ascii ''Starting process...'']\<rparr>
      in case mkdir_exist_ok sm of
           Inl x \<Rightarrow> s0\<lparr>fault := Some x\<rparr>
         | Inr d \<Rightarrow>
             (case get_processed_videos st of
                Inl x \<Rightarrow> s0\<lparr>summaries := d, trace := [LoadCalled], fault := Some x\<rparr>
              | Inr pv \<Rightarrow>
                  process_channels env CHANNELS
                    (s0\<lparr>summaries := d, trace := [LoadCalled], processed_videos := pv\<rparr>)))"

text \<open>
  The module as a script: the check of the API key comes first, at module level; the
  raise there ends the program before \<open>main\<close> is reached.
\<close>

definition script :: "env \<Rightarrow> path_state \<Rightarrow> dir_state \<Rightarrow> state" where
  "script env st sm =
     (case load_api_key (environ env) of
        Inl x \<Rightarrow> (start st sm)\<lparr>fault := Some x\<rparr>
      | Inr api_key \<Rightarrow> main env st sm)"

section \<open>Notions used in the properties\<close>

text \<open>
  An identifier that reads back as it was written: no white space at either end and no
  line break inside.
\<close>

definition well_formed_id :: "str \<Rightarrow> bool" where
  "well_formed_id v \<longleftrightarrow> strip v = v \<and> LF \<notin> set v \<and> CR \<notin> set v"

definition newline_terminated :: "str \<Rightarrow> bool" where
  "newline_terminated text \<longleftrightarrow> text = [] \<or> last text = LF"

text \<open>
  A store the program itself could have left: no file yet, or a readable and writable
  file that is empty or ends in a line break.
\<close>

fun usable_store :: "path_state \<Rightarrow> bool" where
  "usable_store Missing = True"
| "usable_store Directory = False"
| "usable_store (Regular r w text) = (r \<and> w \<and> newline_terminated text)"

fun recorded :: "event list \<Rightarrow> str list" where
  "recorded [] = []"
| "recorded (RecordCalled v # evs) = v # recorded evs"
| "recorded (ev # evs) = recorded evs"

fun is_write :: "event \<Rightarrow> bool" where
  "is_write (ArtifactWritten v f) = True"
| "is_write (RecordCalled v) = True"
| "is_write ev = False"

text \<open>The text of the store, the empty text when there is no file.\<close>

fun store_text :: "path_state \<Rightarrow> str" where
  "store_text (Regular r w text) = text"
| "store_text p = []"

text \<open>A sequence of \<open>record\<close> calls, one after the other; the first failure ends it.\<close>

fun record_all :: "str list \<Rightarrow> path_state \<Rightarrow> exn + path_state" where
  "record_all [] p = Inr p"
| "record_all (v # vs) p =
     (case save_processed_video v p of Inl x \<Rightarrow> Inl x | Inr p' \<Rightarrow> record_all vs p')"

text \<open>
  What the two services yield for an entry: the summary, or \<open>None\<close> when the
  transcript or the summary cannot be had.
\<close>

definition summary_of :: "env \<Rightarrow> entry \<Rightarrow> str option" where
  "summary_of env e =
     (case fst (get_transcript env (video_id e)) of
        None \<Rightarrow> None
      | Some transcript \<Rightarrow> fst (summarize_text env transcript (title e)))"

text \<open>All the entries a run meets, channel after channel.\<close>

definition feed_entries :: "env \<Rightarrow> entry list" where
  "feed_entries env = concat (map (\<lambda>ch. feedparser_parse env (snd ch)) CHANNELS)"

fun is_dir :: "dir_state \<Rightarrow> bool" where
  "is_dir (Dir files) = True"
| "is_dir d = False"

text \<open>
  The state of \<open>main\<close> when it enters the loop over the channels: the directory is
  there and the store has been loaded.
\<close>

definition loaded :: "path_state \<Rightarrow> dir_state \<Rightarrow> str set \<Rightarrow> state" where
  "loaded st d pv =
     \<lparr>store = st, summaries = d, stdout = [ascii ''Starting process...''],
      trace = [LoadCalled], processed_videos = pv, fault = None\<rparr>"

text \<open>
  A trace in which every call of \<open>record\<close> comes directly after the successful write
  of an artifact for the same video. \<open>follows prev ev\<close> says that \<open>ev\<close> may come
  directly after \<open>prev\<close>; the trace is checked from its start, where nothing has been
  written.
\<close>

definition follows :: "event \<Rightarrow> event \<Rightarrow> bool" where
  "follows prev ev =
     (case ev of
        RecordCalled u \<Rightarrow> (case prev of ArtifactWritten v f \<Rightarrow> u = v | _ \<Rightarrow> False)
      | _ \<Rightarrow> True)"

fun ordered_from :: "event \<Rightarrow> event list \<Rightarrow> bool" where
  "ordered_from prev [] = True"
| "ordered_from prev (ev # evs) = (follows prev ev \<and> ordered_from ev evs)"

definition record_after_write :: "event list \<Rightarrow> bool" where
  "record_after_write tr = ordered_from LoadCalled tr"

text \<open>
  A small world for concrete runs, after the scenario of the spec (8): the feed of the
  first channel holds the videos \<open>v1\<close> (\<open>Intro\<close>) and \<open>v2\<close> (\<open>Update\<close>), the
  second feed is empty; \<open>v1\<close> has no transcript, \<open>v2\<close> has one; the model answers
  every prompt.
\<close>

definition example_feed :: "entry list" where
  "example_feed =
     [\<lparr>video_id = ascii ''v1'', title = ascii ''Intro''\<rparr>,
      \<lparr>video_id = ascii ''v2'', title = ascii ''Update''\<rparr>]"

definition example_env :: env where
  "example_env =
     \<lparr>environ = [ascii ''GEMINI_API_KEY'' \<mapsto> ascii ''secret''],
      feedparser_parse = (\<lambda>url. if url = snd (hd CHANNELS) then example_feed else []),
      get_transcript_api =
        (\<lambda>v. if v = ascii ''v2''
              then Inr [\<lparr>item_text = ascii ''hello''\<rparr>, \<lparr>item_text = ascii ''world''\<rparr>]
              else Inl (ServiceError (ascii ''no transcript''))),
      generate_content = (\<lambda>prompt. Inr (ascii ''summary'')),
      artifact_writable = (\<lambda>name. True)\<rparr>"

text \<open>The same world once the transcript of \<open>v1\<close> has become available.\<close>

definition example_env_later :: env where
  "example_env_later =
     example_env\<lparr>get_transcript_api := (\<lambda>v. Inr [\<lparr>item_text = ascii ''hello''\<rparr>])\<rparr>"

text \<open>The same world with a model that refuses every prompt.\<close>

definition example_env_no_model :: env where
  "example_env_no_model =
     example_env\<lparr>generate_content := (\<lambda>prompt. Inl (ServiceError (ascii ''quota exceeded'')))\<rparr>"

text \<open>
  Further small worlds: the feed of the first channel is given, the second feed is empty;
  the transcript of every video is \<open>hello\<close>, except that the service fails for the
  identifier \<open>no_transcript\<close>; the model answers every prompt, except that it refuses the
  prompt made for the title \<open>refused_title\<close>.
\<close>

definition example_world :: "entry list \<Rightarrow> str option \<Rightarrow> str option \<Rightarrow> env" where
  "example_world feed no_transcript refused_title =
     \<lparr>environ = [ascii ''GEMINI_API_KEY'' \<mapsto> ascii ''secret''],
      feedparser_parse = (\<lambda>url. if url = snd (hd CHANNELS) then feed else []),
      get_transcript_api =
        (\<lambda>v. if Some v = no_transcript
              then Inl (ServiceError (ascii ''no transcript''))
              else Inr [\<lparr>item_text = ascii ''hello''\<rparr>]),
      generate_content =
        (\<lambda>prompt.
           case refused_title of
             None \<Rightarrow> Inr (ascii ''summary'')
           | Some ttl \<Rightarrow>
               if prompt = final_prompt ttl (ascii ''hello'')
               then Inl (ServiceError (ascii ''quota exceeded''))
               else Inr (ascii ''summary'')),
      artifact_writable = (\<lambda>name. True)\<rparr>"

text \<open>
  A feed whose first identifier, appended to a record \<open>a\<close> without a final line break,
  reads back as the second; a feed whose first identifier is the second followed by a
  space; a feed that lists one video under two titles.
\<close>

definition glued_feed :: "entry list" where
  "glued_feed =
     [\<lparr>video_id = ascii ''b'', title = ascii ''Intro''\<rparr>,
      \<lparr>video_id = ascii ''ab'', title = ascii ''Update''\<rparr>]"

definition spaced_feed :: "entry list" where
  "spaced_feed =
     [\<lparr>video_id = ascii ''a '', title = ascii ''Intro''\<rparr>,
      \<lparr>video_id = ascii ''a'', title = ascii ''Update''\<rparr>]"

definition retitled_feed :: "entry list" where
  "retitled_feed =
     [\<lparr>video_id = ascii ''v1'', title = ascii ''Update''\<rparr>,
      \<lparr>video_id = ascii ''v1'', title = ascii ''Intro''\<rparr>]"

section \<open>Stripping\<close>

lemma isspace_LF: "isspace LF"
  by (simp add: isspace_def LF_def)

lemma dropWhile_fixed: "xs = [] \<or> \<not> P (hd xs) \<Longrightarrow> dropWhile P xs = xs"
  by (cases xs) auto

lemma dropWhile_head: "dropWhile P xs = [] \<or> \<not> P (hd (dropWhile P xs))"
  using hd_dropWhile by blast

lemma dropWhile_last: "dropWhile P xs \<noteq> [] \<Longrightarrow> last (dropWhile P xs) = last xs"
  by (induction xs) (auto split: if_splits)

lemma strip_ends: "strip s = [] \<or> (\<not> isspace (hd (strip s)) \<and> \<not> isspace (last (strip s)))"
proof (cases "strip s = []")
  case True
  then show ?thesis by simp
next
  case False
  let ?t = "dropWhile isspace (rev s)"
  have t: "?t \<noteq> []"
  proof
    assume a: "?t = []"
    have "strip s = dropWhile isspace (rev ?t)" by (simp only: strip_def)
    also have "\<dots> = []" by (simp only: a rev.simps dropWhile.simps)
    finally show False using False by simp
  qed
  have "last (strip s) = last (rev ?t)"
    using False unfolding strip_def by (rule dropWhile_last)
  also have "\<dots> = hd ?t" using t by (simp add: last_rev)
  finally have "\<not> isspace (last (strip s))"
    using t hd_dropWhile by metis
  moreover have "\<not> isspace (hd (strip s))"
    using False unfolding strip_def by (rule hd_dropWhile)
  ultimately show ?thesis by simp
qed

lemma strip_fixed: "v = [] \<or> (\<not> isspace (hd v) \<and> \<not> isspace (last v)) \<Longrightarrow> strip v = v"
proof (cases "v = []")
  case True
  then show ?thesis by (simp add: strip_def)
next
  case False
  assume "v = [] \<or> (\<not> isspace (hd v) \<and> \<not> isspace (last v))"
  with False have h: "\<not> isspace (hd v)" and l: "\<not> isspace (last v)" by auto
  have "dropWhile isspace (rev v) = rev v"
    using False l by (intro dropWhile_fixed) (simp add: hd_rev)
  then show ?thesis
    using False h by (simp add: strip_def dropWhile_fixed)
qed

lemma strip_idem: "strip (strip s) = strip s"
  using strip_ends by (rule strip_fixed)

lemma strip_fixed_iff: "strip v = v \<longleftrightarrow> v = [] \<or> (\<not> isspace (hd v) \<and> \<not> isspace (last v))"
  using strip_ends [of v] strip_fixed [of v] by auto

lemma strip_line: "strip (v @ [LF]) = strip v"
  by (simp add: strip_def isspace_LF)

section \<open>Reading the lines of a text\<close>

lemma universal_newlines_append:
  "a = [] \<or> last a \<noteq> CR \<Longrightarrow> universal_newlines (a @ b) = universal_newlines a @ universal_newlines b"
proof (induction a rule: universal_newlines.induct)
  case 1
  then show ?case by simp
next
  case (2 c)
  then show ?case by (cases b) auto
next
  case (3 c d cs)
  then show ?case by (auto split: if_splits)
qed

lemma universal_newlines_id: "CR \<notin> set v \<Longrightarrow> universal_newlines v = v"
  by (induction v rule: universal_newlines.induct) auto

lemma universal_newlines_Nil: "universal_newlines a = [] \<longleftrightarrow> a = []"
  by (induction a rule: universal_newlines.induct) auto

lemma universal_newlines_last:
  "a \<noteq> [] \<Longrightarrow> last a = LF \<Longrightarrow> last (universal_newlines a) = LF"
  by (induction a rule: universal_newlines.induct) (auto simp: universal_newlines_Nil split: if_splits)

lemma newline_terminated_universal:
  "newline_terminated a \<Longrightarrow> newline_terminated (universal_newlines a)"
  by (cases "a = []") (auto simp: newline_terminated_def universal_newlines_last)

lemma file_lines_append:
  "newline_terminated a \<Longrightarrow> file_lines (a @ b) = file_lines a @ file_lines b"
proof (induction a)
  case Nil
  then show ?case by simp
next
  case (Cons c cs)
  show ?case
  proof (cases "cs = []")
    case True
    with Cons.prems show ?thesis by (simp add: newline_terminated_def)
  next
    case False
    with Cons.prems have "newline_terminated cs" by (simp add: newline_terminated_def)
    with Cons.IH have ih: "file_lines (cs @ b) = file_lines cs @ file_lines b" .
    from False have "file_lines cs \<noteq> []" by (cases cs) (auto split: list.splits)
    with ih show ?thesis by (auto split: list.splits)
  qed
qed

lemma file_lines_single: "LF \<notin> set v \<Longrightarrow> file_lines (v @ [LF]) = [v @ [LF]]"
  by (induction v) auto

lemma read_lines_append_line:
  assumes "newline_terminated text" and "LF \<notin> set v" and "CR \<notin> set v"
  shows "read_lines (text @ v @ [LF]) = read_lines text @ [v @ [LF]]"
proof -
  have ne: "LF \<noteq> CR" by (simp add: LF_def CR_def)
  from assms(1) ne have "text = [] \<or> last text \<noteq> CR"
    by (auto simp: newline_terminated_def)
  then have "universal_newlines (text @ v @ [LF]) = universal_newlines text @ universal_newlines (v @ [LF])"
    by (rule universal_newlines_append)
  also have "universal_newlines (v @ [LF]) = v @ [LF]"
    using assms(3) ne by (intro universal_newlines_id) auto
  finally show ?thesis
    using assms(1,2)
    by (simp add: read_lines_def file_lines_append newline_terminated_universal file_lines_single)
qed

lemma newline_terminated_append_line: "newline_terminated (text @ v @ [LF])"
  by (simp add: newline_terminated_def)

lemma save_usable:
  assumes "usable_store p"
  shows "save_processed_video v p = Inr (Regular True True (store_text p @ v @ [LF]))"
  using assms by (cases p) auto

lemma load_usable:
  assumes "usable_store p"
  shows "get_processed_videos p = Inr (set (map strip (read_lines (store_text p))))"
  using assms by (cases p) (auto simp: read_lines_def)

lemma load_after_save:
  assumes "usable_store p" and "LF \<notin> set v" and "CR \<notin> set v"
    and "get_processed_videos p = Inr S"
  shows "\<exists>p'. save_processed_video v p = Inr p' \<and> usable_store p' \<and>
           get_processed_videos p' = Inr (insert (strip v) S)"
proof -
  have nt: "newline_terminated (store_text p)" using assms(1) by (cases p) (auto simp: newline_terminated_def)
  let ?p' = "Regular True True (store_text p @ v @ [LF])"
  have 1: "save_processed_video v p = Inr ?p'" using assms(1) by (cases p) auto
  have 2: "usable_store ?p'" by (simp add: newline_terminated_append_line)
  have "S = set (map strip (read_lines (store_text p)))"
    using load_usable [OF assms(1)] assms(4) by simp
  then have 3: "get_processed_videos ?p' = Inr (insert (strip v) S)"
    using read_lines_append_line [OF nt assms(2,3)] by (simp add: strip_line)
  from 1 2 3 show ?thesis by blast
qed

section \<open>Appending to the state store\<close>

lemma read_lines_append:
  assumes "newline_terminated text"
  shows "read_lines (text @ rest) = read_lines text @ read_lines rest"
proof -
  have "LF \<noteq> CR" by (simp add: LF_def CR_def)
  with assms have "text = [] \<or> last text \<noteq> CR"
    by (auto simp: newline_terminated_def)
  then have "universal_newlines (text @ rest) = universal_newlines text @ universal_newlines rest"
    by (rule universal_newlines_append)
  then show ?thesis
    using assms by (simp add: read_lines_def file_lines_append newline_terminated_universal)
qed

lemma usable_store_text: "usable_store p \<Longrightarrow> newline_terminated (store_text p)"
  by (cases p) (auto simp: newline_terminated_def)

lemma load_grows:
  assumes "usable_store p" and "get_processed_videos p = Inr S"
  shows "\<exists>p' S'. save_processed_video u p = Inr p' \<and> usable_store p' \<and>
           get_processed_videos p' = Inr S' \<and> S \<subseteq> S'"
proof -
  let ?p' = "Regular True True (store_text p @ u @ [LF])"
  have 1: "save_processed_video u p = Inr ?p'" using assms(1) by (rule save_usable)
  have 2: "usable_store ?p'" by (simp add: newline_terminated_append_line)
  have S: "S = set (map strip (read_lines (store_text p)))"
    using load_usable [OF assms(1)] assms(2) by simp
  have "read_lines (store_text p @ u @ [LF]) = read_lines (store_text p) @ read_lines (u @ [LF])"
    using usable_store_text [OF assms(1)] by (rule read_lines_append)
  then have 3: "S \<subseteq> set (map strip (read_lines (store_text p @ u @ [LF])))"
    using S by auto
  from 1 2 3 show ?thesis by auto
qed

lemma record_all_keeps:
  assumes "usable_store p" and "get_processed_videos p = Inr S"
  shows "\<exists>p' S'. record_all us p = Inr p' \<and> get_processed_videos p' = Inr S' \<and> S \<subseteq> S'"
  using assms
proof (induction us arbitrary: p S)
  case Nil
  then show ?case by simp
next
  case (Cons u us)
  from load_grows [OF Cons.prems, of u] obtain p1 S1 where
    1: "save_processed_video u p = Inr p1" "usable_store p1"
       "get_processed_videos p1 = Inr S1" "S \<subseteq> S1" by blast
  from Cons.IH [OF 1(2,3)] obtain p' S' where
    "record_all us p1 = Inr p'" "get_processed_videos p' = Inr S'" "S1 \<subseteq> S'" by blast
  with 1 show ?case by auto
qed

lemma load_total_usable: "usable_store p \<Longrightarrow> \<exists>S. get_processed_videos p = Inr S"
  by (cases p) auto

lemma re_sub_class_filter: "re_sub_class cls [] s = filter (\<lambda>c. c \<notin> set cls) s"
  by (induction s) auto

section \<open>File names of the summaries\<close>

text \<open>
  C9: \<open>sanitize_filename\<close> removes every character forbidden in file names (the
  class \<open>\ / * ? : " < > |\<close>) from the title and leaves every other character,
  spaces included, in place and in order; a title without such a character is returned
  as it is, and \<open>Top 10: "Best" Tips?\<close> becomes \<open>Top 10 Best Tips\<close>.
\<close>

theorem sanitize_filename_strips_forbidden:
  \<open>set (sanitize_filename name) \<inter> set forbidden = {} \<and>
   sanitize_filename name = filter (\<lambda>c. c \<notin> set forbidden) name \<and>
   (set name \<inter> set forbidden = {} \<longrightarrow> sanitize_filename name = name) \<and>
   sanitize_filename (ascii ''Top 10: "Best" Tips?'') = ascii ''Top 10 Best Tips''\<close>
proof -
  have f: "sanitize_filename name = filter (\<lambda>c. c \<notin> set forbidden) name"
    by (simp add: sanitize_filename_def re_sub_class_filter)
  have 1: "set (sanitize_filename name) \<inter> set forbidden = {}"
    unfolding f by auto
  have 2: "set name \<inter> set forbidden = {} \<longrightarrow> sanitize_filename name = name"
    unfolding f by (auto intro: filter_True)
  have 3: \<open>sanitize_filename (ascii ''Top 10: "Best" Tips?'') = ascii ''Top 10 Best Tips''\<close>
    by (simp add: sanitize_filename_def ascii_def forbidden_def)
  from f 1 2 3 show ?thesis by blast
qed

theorem sanitize_filename_strips_forbidden_witness:
  "set (ascii ''My video 1'') \<inter> set forbidden = {} \<and>
   sanitize_filename (ascii ''My video 1'') = ascii ''My video 1''"
proof -
  have h: "set (ascii ''My video 1'') \<inter> set forbidden = {}"
    by (simp add: ascii_def forbidden_def)
  have "sanitize_filename (ascii ''My video 1'') = ascii ''My video 1''"
    using sanitize_filename_strips_forbidden [of "ascii ''My video 1''"] h by blast
  with h show ?thesis by blast
qed

section \<open>Loading the state store\<close>

text \<open>
  C3: \<open>get_processed_videos\<close> returns the empty set, and no error, when the record
  file does not exist (nor when the path is not a regular file); it fails exactly when the
  file exists and cannot be read.
\<close>

theorem get_processed_videos_missing_file:
  "get_processed_videos Missing = Inr {} \<and>
   get_processed_videos Directory = Inr {} \<and>
   ((\<exists>x. get_processed_videos p = Inl x) \<longleftrightarrow> (\<exists>w text. p = Regular False w text))"
  by (cases p) auto

theorem get_processed_videos_missing_file_witness:
  "get_processed_videos (Regular False True (ascii ''v1'' @ [LF])) = Inl PermissionError \<and>
   (\<exists>w text. Regular False True (ascii ''v1'' @ [LF]) = Regular False w text)"
proof -
  have h: "get_processed_videos (Regular False True (ascii ''v1'' @ [LF])) = Inl PermissionError"
    by simp
  then have "\<exists>x. get_processed_videos (Regular False True (ascii ''v1'' @ [LF])) = Inl x"
    by blast
  then have "\<exists>w text. Regular False True (ascii ''v1'' @ [LF]) = Regular False w text"
    using get_processed_videos_missing_file [of "Regular False True (ascii ''v1'' @ [LF])"]
    by blast
  with h show ?thesis by blast
qed

text \<open>
  C10: for a readable file \<open>get_processed_videos\<close> returns the set of the lines of
  the file, each stripped of leading and trailing white space. Whatever it returns is a
  finite set with at most one element per line, none of its elements begins or ends with
  white space, and recording an identifier a second time, which duplicates its line,
  leaves the loaded set as it was.
\<close>

theorem get_processed_videos_stripped_set:
  "get_processed_videos (Regular True w text) = Inr (set (map strip (read_lines text))) \<and>
   (get_processed_videos p = Inr S \<longrightarrow>
      finite S \<and> card S \<le> length (read_lines (store_text p)) \<and>
      (\<forall>v\<in>S. strip v = v \<and> (v \<noteq> [] \<longrightarrow> \<not> isspace (hd v) \<and> \<not> isspace (last v)))) \<and>
   (usable_store p \<and> LF \<notin> set u \<and> CR \<notin> set u \<and>
    save_processed_video u p = Inr p1 \<and> save_processed_video u p1 = Inr p2 \<longrightarrow>
      get_processed_videos p2 = get_processed_videos p1)"
proof (intro conjI impI)
  show "get_processed_videos (Regular True w text) = Inr (set (map strip (read_lines text)))"
    by simp
next
  assume a: "get_processed_videos p = Inr S"
  show "finite S" using a by (cases p) (auto split: if_splits)
  show "card S \<le> length (read_lines (store_text p))"
  proof (cases p)
    case (Regular r w' t)
    with a have "S = set (map strip (read_lines t))" by (auto split: if_splits)
    then have "card S \<le> length (map strip (read_lines t))" by (simp only: card_length)
    with Regular show ?thesis by simp
  qed (use a in auto)
  show "\<forall>v\<in>S. strip v = v \<and> (v \<noteq> [] \<longrightarrow> \<not> isspace (hd v) \<and> \<not> isspace (last v))"
  proof
    fix v assume "v \<in> S"
    with a obtain l where "v = strip l" by (cases p) (auto split: if_splits)
    then show "strip v = v \<and> (v \<noteq> [] \<longrightarrow> \<not> isspace (hd v) \<and> \<not> isspace (last v))"
      using strip_idem [of l] strip_ends [of l] by auto
  qed
next
  assume a: "usable_store p \<and> LF \<notin> set u \<and> CR \<notin> set u \<and>
    save_processed_video u p = Inr p1 \<and> save_processed_video u p1 = Inr p2"
  from a obtain S where S: "get_processed_videos p = Inr S" using load_total_usable by blast
  from load_after_save [of p u S] a S have
    1: "usable_store p1" "get_processed_videos p1 = Inr (insert (strip u) S)" by auto
  from load_after_save [of p1 u "insert (strip u) S"] a 1 have
    "get_processed_videos p2 = Inr (insert (strip u) (insert (strip u) S))" by auto
  with 1 show "get_processed_videos p2 = get_processed_videos p1" by simp
qed

theorem get_processed_videos_stripped_set_witness:
  "get_processed_videos (Regular True True ([32] @ ascii ''v1'' @ [32, LF] @ ascii ''v1'' @ [LF]))
     = Inr {ascii ''v1''} \<and>
   strip (ascii ''v1'') = ascii ''v1'' \<and>
   usable_store Missing \<and>
   get_processed_videos (Regular True True (ascii ''v1'' @ [LF] @ ascii ''v1'' @ [LF]))
     = get_processed_videos (Regular True True (ascii ''v1'' @ [LF]))"
proof -
  let ?p = "Regular True True ([32] @ ascii ''v1'' @ [32, LF] @ ascii ''v1'' @ [LF])"
  have h: "get_processed_videos ?p = Inr {ascii ''v1''}"
    by (simp add: ascii_def LF_def CR_def read_lines_def strip_def isspace_def)
  have 1: "strip (ascii ''v1'') = ascii ''v1''"
    using get_processed_videos_stripped_set [of True "[]" ?p "{ascii ''v1''}"] h by blast
  have u: "usable_store Missing \<and> LF \<notin> set (ascii ''v1'') \<and> CR \<notin> set (ascii ''v1'') \<and>
      save_processed_video (ascii ''v1'') Missing = Inr (Regular True True (ascii ''v1'' @ [LF])) \<and>
      save_processed_video (ascii ''v1'') (Regular True True (ascii ''v1'' @ [LF]))
        = Inr (Regular True True (ascii ''v1'' @ [LF] @ ascii ''v1'' @ [LF]))"
    by (simp add: ascii_def LF_def CR_def)
  have 2: "get_processed_videos (Regular True True (ascii ''v1'' @ [LF] @ ascii ''v1'' @ [LF]))
     = get_processed_videos (Regular True True (ascii ''v1'' @ [LF]))"
    using get_processed_videos_stripped_set
      [of True "[]" Missing "{}" "ascii ''v1''" "Regular True True (ascii ''v1'' @ [LF])"
          "Regular True True (ascii ''v1'' @ [LF] @ ascii ''v1'' @ [LF])"] u
    by blast
  from h 1 2 u show ?thesis by blast
qed

section \<open>Recording a video\<close>

text \<open>
  C4: \<open>save_processed_video\<close> appends exactly the identifier and one line break to
  the record, creating the file when there is none, and looks neither at the identifier
  nor at what the record already holds: after two calls with the same identifier the text
  of the record is the old text followed by that line twice. Where the old text is empty or
  ends in a line break and the identifier holds no line break, the lines read back are the
  old lines and then twice the line of the identifier, so that the record holds that line
  two more times than before.
\<close>

theorem save_processed_video_appends_line:
  "save_processed_video v Missing = Inr (Regular True True (v @ [LF])) \<and>
   save_processed_video v (Regular r True text) = Inr (Regular r True (text @ v @ [LF])) \<and>
   (save_processed_video v p = Inr p1 \<and> save_processed_video v p1 = Inr p2 \<longrightarrow>
      store_text p1 = store_text p @ v @ [LF] \<and>
      store_text p2 = store_text p @ (v @ [LF]) @ (v @ [LF]) \<and>
      (newline_terminated (store_text p) \<and> LF \<notin> set v \<and> CR \<notin> set v \<longrightarrow>
         read_lines (store_text p2) = read_lines (store_text p) @ [v @ [LF], v @ [LF]] \<and>
         count_list (read_lines (store_text p2)) (v @ [LF])
           = count_list (read_lines (store_text p)) (v @ [LF]) + 2))"
proof (intro conjI impI)
  show "save_processed_video v Missing = Inr (Regular True True (v @ [LF]))" by simp
  show "save_processed_video v (Regular r True text) = Inr (Regular r True (text @ v @ [LF]))"
    by simp
next
  assume a: "save_processed_video v p = Inr p1 \<and> save_processed_video v p1 = Inr p2"
  then show 1: "store_text p1 = store_text p @ v @ [LF]"
    by (cases p) (auto split: if_splits)
  from a have "store_text p2 = store_text p1 @ v @ [LF]"
    by (cases p1) (auto split: if_splits)
  with 1 show 2: "store_text p2 = store_text p @ (v @ [LF]) @ (v @ [LF])" by simp
  assume b: "newline_terminated (store_text p) \<and> LF \<notin> set v \<and> CR \<notin> set v"
  have "read_lines (store_text p1) = read_lines (store_text p) @ [v @ [LF]]"
    unfolding 1 using b by (intro read_lines_append_line) auto
  moreover have "read_lines (store_text p2) = read_lines (store_text p1) @ [v @ [LF]]"
  proof -
    have "newline_terminated (store_text p1)"
      unfolding 1 by (rule newline_terminated_append_line)
    moreover have "store_text p2 = store_text p1 @ v @ [LF]" using 1 2 by simp
    ultimately show ?thesis using b by (simp add: read_lines_append_line)
  qed
  ultimately show 3: "read_lines (store_text p2) = read_lines (store_text p) @ [v @ [LF], v @ [LF]]"
    by simp
  show "count_list (read_lines (store_text p2)) (v @ [LF])
           = count_list (read_lines (store_text p)) (v @ [LF]) + 2"
    unfolding 3 by (simp add: count_list_append)
qed

theorem save_processed_video_appends_line_witness:
  "save_processed_video (ascii ''v1'') (Regular True True (ascii ''v1'' @ [LF]))
     = Inr (Regular True True (ascii ''v1'' @ [LF] @ ascii ''v1'' @ [LF])) \<and>
   save_processed_video (ascii ''v1'') (Regular True True (ascii ''v1'' @ [LF] @ ascii ''v1'' @ [LF]))
     = Inr (Regular True True (ascii ''v1'' @ [LF] @ ascii ''v1'' @ [LF] @ ascii ''v1'' @ [LF])) \<and>
   newline_terminated (ascii ''v1'' @ [LF]) \<and> LF \<notin> set (ascii ''v1'') \<and> CR \<notin> set (ascii ''v1'') \<and>
   count_list (read_lines (ascii ''v1'' @ [LF] @ ascii ''v1'' @ [LF] @ ascii ''v1'' @ [LF]))
       (ascii ''v1'' @ [LF])
     = count_list (read_lines (ascii ''v1'' @ [LF])) (ascii ''v1'' @ [LF]) + 2"
proof -
  let ?p = "Regular True True (ascii ''v1'' @ [LF])"
  let ?p1 = "Regular True True (ascii ''v1'' @ [LF] @ ascii ''v1'' @ [LF])"
  let ?p2 = "Regular True True (ascii ''v1'' @ [LF] @ ascii ''v1'' @ [LF] @ ascii ''v1'' @ [LF])"
  have h: "save_processed_video (ascii ''v1'') ?p = Inr ?p1 \<and>
           save_processed_video (ascii ''v1'') ?p1 = Inr ?p2" by simp
  have g: "newline_terminated (store_text ?p) \<and> LF \<notin> set (ascii ''v1'') \<and> CR \<notin> set (ascii ''v1'')"
    by (simp add: newline_terminated_def ascii_def LF_def CR_def)
  have "count_list (read_lines (store_text ?p2)) (ascii ''v1'' @ [LF])
     = count_list (read_lines (store_text ?p)) (ascii ''v1'' @ [LF]) + 2"
    using save_processed_video_appends_line [of "ascii ''v1''" True "[]" ?p ?p1 ?p2] h g
    by blast
  with h g show ?thesis by simp
qed

text \<open>
  C5, as stated: after \<open>record(id)\<close> the identifier is a member of what every later
  \<open>load()\<close> returns, for every identifier and every state of the store. It fails
  where the record does not end in a line break (the identifier is glued to the last
  line) and where the identifier begins or ends with white space (the load strips it).
\<close>

theorem record_then_load_counterexample:
  "save_processed_video (ascii ''xyz'') (Regular True True (ascii ''abc''))
     = Inr (Regular True True (ascii ''abcxyz'' @ [LF])) \<and>
   get_processed_videos (Regular True True (ascii ''abcxyz'' @ [LF])) = Inr {ascii ''abcxyz''} \<and>
   ascii ''xyz'' \<notin> {ascii ''abcxyz''} \<and>
   save_processed_video ([32] @ ascii ''xyz'') Missing
     = Inr (Regular True True ([32] @ ascii ''xyz'' @ [LF])) \<and>
   get_processed_videos (Regular True True ([32] @ ascii ''xyz'' @ [LF])) = Inr {ascii ''xyz''} \<and>
   [32] @ ascii ''xyz'' \<notin> {ascii ''xyz''}"
  by (simp add: ascii_def LF_def CR_def read_lines_def strip_def isspace_def)

text \<open>
  C5, amended: when the store is absent, or a readable and writable file that is empty or
  ends in a line break, and the identifier has no white space at either end and no line
  break inside, then \<open>record(id)\<close> succeeds and the identifier is a member of what
  \<open>load()\<close> returns afterwards, also after any further identifiers have been
  recorded.
\<close>

theorem record_then_load_member:
  assumes "usable_store p" and "well_formed_id v"
  shows "\<exists>p' S. record_all (v # us) p = Inr p' \<and> get_processed_videos p' = Inr S \<and> v \<in> S"
proof -
  from assms(1) obtain S0 where S0: "get_processed_videos p = Inr S0"
    using load_total_usable by blast
  from assms(2) have v: "strip v = v" "LF \<notin> set v" "CR \<notin> set v"
    by (simp_all add: well_formed_id_def)
  from load_after_save [OF assms(1) v(2,3) S0] v(1) obtain p1 where
    1: "save_processed_video v p = Inr p1" "usable_store p1"
       "get_processed_videos p1 = Inr (insert v S0)" by auto
  from record_all_keeps [OF 1(2,3), of us] obtain p' S' where
    "record_all us p1 = Inr p'" "get_processed_videos p' = Inr S'" "insert v S0 \<subseteq> S'" by blast
  with 1(1) show ?thesis by auto
qed

theorem record_then_load_member_witness:
  "usable_store (Regular True True (ascii ''v1'' @ [LF])) \<and> well_formed_id (ascii ''v2'') \<and>
   (\<exists>p' S. record_all [ascii ''v2'', ascii ''v3''] (Regular True True (ascii ''v1'' @ [LF])) = Inr p' \<and>
      get_processed_videos p' = Inr S \<and> ascii ''v2'' \<in> S)"
proof -
  have h1: "usable_store (Regular True True (ascii ''v1'' @ [LF]))"
    by (simp add: newline_terminated_def)
  have h2: "well_formed_id (ascii ''v2'')"
    by (simp add: well_formed_id_def ascii_def LF_def CR_def strip_def isspace_def)
  from record_then_load_member [OF h1 h2, of "[ascii ''v3'']"] h1 h2 show ?thesis by blast
qed

section \<open>The API key\<close>

text \<open>
  C8, as stated: if the credential is present in the process environment, the error
  branch is never taken. A variable that is set to the empty string is present, and the
  check raises for it.
\<close>

theorem api_key_check_counterexample:
  "[ascii ''GEMINI_API_KEY'' \<mapsto> []] (ascii ''GEMINI_API_KEY'') = Some [] \<and>
   load_api_key [ascii ''GEMINI_API_KEY'' \<mapsto> []] = Inl (ValueError missing_key_message)"
  by (simp add: load_api_key_def)

text \<open>
  C8, amended: if \<open>GEMINI_API_KEY\<close> is not set or is set to the empty string, the
  program ends with the \<open>ValueError\<close> of the check before anything else happens: no
  load of the store, no feed fetch, no call of a service, nothing printed, nothing changed
  on disk. If it is set to a non-empty string, the check passes and the program is the
  run of \<open>main\<close>.
\<close>

theorem api_key_check:
  "(environ env (ascii ''GEMINI_API_KEY'') = None \<or>
    environ env (ascii ''GEMINI_API_KEY'') = Some [] \<longrightarrow>
      load_api_key (environ env) = Inl (ValueError missing_key_message) \<and>
      fault (script env st sm) = Some (ValueError missing_key_message) \<and>
      trace (script env st sm) = [] \<and> stdout (script env st sm) = [] \<and>
      store (script env st sm) = st \<and> summaries (script env st sm) = sm) \<and>
   (environ env (ascii ''GEMINI_API_KEY'') = Some k \<and> k \<noteq> [] \<longrightarrow>
      load_api_key (environ env) = Inr k \<and> script env st sm = main env st sm)"
  by (auto simp: load_api_key_def script_def start_def)

theorem api_key_check_witness:
  "environ (example_env\<lparr>environ := Map.empty\<rparr>) (ascii ''GEMINI_API_KEY'') = None \<and>
   fault (script (example_env\<lparr>environ := Map.empty\<rparr>) Missing NoDir)
     = Some (ValueError missing_key_message) \<and>
   trace (script (example_env\<lparr>environ := Map.empty\<rparr>) Missing NoDir) = [] \<and>
   environ example_env (ascii ''GEMINI_API_KEY'') = Some (ascii ''secret'') \<and>
   ascii ''secret'' \<noteq> [] \<and>
   script example_env Missing NoDir = main example_env Missing NoDir"
proof -
  let ?e = "example_env\<lparr>environ := Map.empty\<rparr>"
  have h1: "environ ?e (ascii ''GEMINI_API_KEY'') = None" by simp
  have h2: "environ example_env (ascii ''GEMINI_API_KEY'') = Some (ascii ''secret'') \<and>
            ascii ''secret'' \<noteq> []"
    by (simp add: example_env_def ascii_def)
  have 1: "fault (script ?e Missing NoDir) = Some (ValueError missing_key_message) \<and>
           trace (script ?e Missing NoDir) = []"
    using api_key_check [of ?e Missing NoDir] h1 by blast
  have 2: "script example_env Missing NoDir = main example_env Missing NoDir"
    using api_key_check [of example_env Missing NoDir "ascii ''secret''"] h2 by blast
  from h1 h2 1 2 show ?thesis by blast
qed

section \<open>One entry\<close>

lemma process_entry_cases [case_names skip unavailable write_failed record_failed recorded]:
  obtains
    "video_id e \<in> processed_videos s" and "process_entry env e s = s"
  | evs out where "video_id e \<notin> processed_videos s" and "summary_of env e = None"
      and "process_entry env e s = s\<lparr>stdout := stdout s @ out, trace := trace s @ evs\<rparr>"
      and "evs = [TranscriptRequested (video_id e)] \<or>
           evs = [TranscriptRequested (video_id e), SummaryRequested (video_id e)]"
  | summary x where "video_id e \<notin> processed_videos s" and "summary_of env e = Some summary"
      and "write_summary env (title e) summary (summaries s) = Inl x"
      and "process_entry env e s =
             s\<lparr>stdout := stdout s,
               trace := trace s @ [TranscriptRequested (video_id e), SummaryRequested (video_id e),
                  ArtifactWriteFailed (video_id e) (sanitize_filename (title e))],
               fault := Some x\<rparr>"
  | summary d x where "video_id e \<notin> processed_videos s" and "summary_of env e = Some summary"
      and "write_summary env (title e) summary (summaries s) = Inr d"
      and "save_processed_video (video_id e) (store s) = Inl x"
      and "process_entry env e s =
             s\<lparr>summaries := d,
               trace := trace s @ [TranscriptRequested (video_id e), SummaryRequested (video_id e),
                  ArtifactWritten (video_id e) (sanitize_filename (title e)),
                  RecordCalled (video_id e)],
               fault := Some x\<rparr>"
  | summary d st' where "video_id e \<notin> processed_videos s" and "summary_of env e = Some summary"
      and "write_summary env (title e) summary (summaries s) = Inr d"
      and "save_processed_video (video_id e) (store s) = Inr st'"
      and "process_entry env e s =
             s\<lparr>store := st', summaries := d,
               trace := trace s @ [TranscriptRequested (video_id e), SummaryRequested (video_id e),
                  ArtifactWritten (video_id e) (sanitize_filename (title e)),
                  RecordCalled (video_id e)],
               processed_videos := insert (video_id e) (processed_videos s)\<rparr>"
proof (cases "video_id e \<in> processed_videos s")
  case True
  then show ?thesis using that(1) by (simp add: process_entry_def)
next
  case False
  let ?v = "video_id e"
  show ?thesis
  proof (cases "get_transcript_api env ?v")
    case (Inl x)
    let ?out = "[ascii ''Error: Could not retrieve transcript for video ID '' @ ?v @
            ascii ''. Reason: '' @ exn_str x]"
    have "summary_of env e = None"
      using Inl by (simp add: summary_of_def get_transcript_def)
    moreover have "process_entry env e s =
        s\<lparr>stdout := stdout s @ ?out, trace := trace s @ [TranscriptRequested ?v]\<rparr>"
      using False Inl by (simp add: process_entry_def get_transcript_def)
    ultimately show ?thesis using False that(2) by blast
  next
    case (Inr items)
    let ?t = "join (ascii '' '') (map item_text items)"
    have gt: "get_transcript env ?v = (Some ?t, [])"
      using Inr by (simp add: get_transcript_def)
    show ?thesis
    proof (cases "generate_content env (final_prompt (title e) ?t)")
      case (Inl x)
      let ?out = "[ascii ''Error: Could not summarize with Gemini API. Reason: '' @ exn_str x]"
      have "summary_of env e = None"
        using gt Inl by (simp add: summary_of_def summarize_text_def)
      moreover have "process_entry env e s =
          s\<lparr>stdout := stdout s @ ?out,
            trace := trace s @ [TranscriptRequested ?v, SummaryRequested ?v]\<rparr>"
        using False gt Inl
        by (simp add: process_entry_def summarize_step_def summarize_text_def)
      ultimately show ?thesis using False that(2) by blast
    next
      case summ: (Inr summary)
      have st: "summarize_text env ?t (title e) = (Some summary, [])"
        using summ by (simp add: summarize_text_def)
      have so: "summary_of env e = Some summary"
        using gt st by (simp add: summary_of_def)
      have pe: "process_entry env e s =
          persist_and_mark env e summary
            (s\<lparr>trace := trace s @ [TranscriptRequested ?v, SummaryRequested ?v]\<rparr>)"
        using False gt st by (simp add: process_entry_def summarize_step_def)
      show ?thesis
      proof (cases "write_summary env (title e) summary (summaries s)")
        case (Inl x)
        then have "process_entry env e s =
             s\<lparr>stdout := stdout s,
               trace := trace s @ [TranscriptRequested ?v, SummaryRequested ?v,
                  ArtifactWriteFailed ?v (sanitize_filename (title e))],
               fault := Some x\<rparr>"
          unfolding pe by (simp add: persist_and_mark_def)
        with False so Inl show ?thesis using that(3) by blast
      next
        case wr: (Inr d)
        show ?thesis
        proof (cases "save_processed_video ?v (store s)")
          case (Inl x)
          with wr have "process_entry env e s =
             s\<lparr>summaries := d,
               trace := trace s @ [TranscriptRequested ?v, SummaryRequested ?v,
                  ArtifactWritten ?v (sanitize_filename (title e)), RecordCalled ?v],
               fault := Some x\<rparr>"
            unfolding pe by (simp add: persist_and_mark_def mark_processed_def)
          with False so wr Inl show ?thesis using that(4) by blast
        next
          case sv: (Inr st')
          with wr have "process_entry env e s =
             s\<lparr>store := st', summaries := d,
               trace := trace s @ [TranscriptRequested ?v, SummaryRequested ?v,
                  ArtifactWritten ?v (sanitize_filename (title e)), RecordCalled ?v],
               processed_videos := insert ?v (processed_videos s)\<rparr>"
            unfolding pe by (simp add: persist_and_mark_def mark_processed_def)
          with False so wr sv show ?thesis using that(5) by blast
        qed
      qed
    qed
  qed
qed


section \<open>Invariants of a run\<close>

lemma process_entries_invariant:
  assumes "\<And>e s. e \<in> set es \<Longrightarrow> P s \<Longrightarrow> P (process_entry env e s)" and "P s"
  shows "P (process_entries env es s)"
  using assms by (induction es arbitrary: s) (auto simp: Let_def split: option.splits)

lemma process_channels_invariant:
  assumes step: "\<And>e s. e \<in> set (concat (map (\<lambda>ch. feedparser_parse env (snd ch)) chans)) \<Longrightarrow>
             P s \<Longrightarrow> P (process_entry env e s)"
    and announce: "\<And>s out url. P s \<Longrightarrow>
             P (s\<lparr>stdout := stdout s @ [out], trace := trace s @ [FeedFetched url]\<rparr>)"
    and "P s"
  shows "P (process_channels env chans s)"
  using assms
proof (induction chans arbitrary: s)
  case Nil
  then show ?case by simp
next
  case (Cons ch chans)
  obtain name url where ch: "ch = (name, url)" by (cases ch)
  let ?s1 = "s\<lparr>stdout := stdout s @ [[LF] @ ascii ''Checking channel: '' @ name],
                 trace := trace s @ [FeedFetched url]\<rparr>"
  let ?s2 = "process_entries env (feedparser_parse env url) ?s1"
  have "P ?s1" using Cons.prems(2,3) by blast
  then have s2: "P ?s2"
    using Cons.prems(1) ch by (intro process_entries_invariant [where P = P]) auto
  show ?case
  proof (cases "fault ?s2")
    case None
    have "P (process_channels env chans ?s2)"
    proof (rule Cons.IH)
      show "P ?s2" by (rule s2)
    qed (use Cons.prems(1,2) in auto)
    with None ch show ?thesis by (simp add: Let_def)
  next
    case (Some x)
    with s2 ch show ?thesis by (simp add: Let_def)
  qed
qed

lemma main_cases [case_names no_dir no_load run]:
  obtains x where "mkdir_exist_ok sm = Inl x"
      and "main env st sm =
             \<lparr>store = st, summaries = sm, stdout = [ascii ''Starting process...''],
              trace = [], processed_videos = {}, fault = Some x\<rparr>"
  | d x where "mkdir_exist_ok sm = Inr d" and "get_processed_videos st = Inl x"
      and "main env st sm =
             \<lparr>store = st, summaries = d, stdout = [ascii ''Starting process...''],
              trace = [LoadCalled], processed_videos = {}, fault = Some x\<rparr>"
  | d pv where "mkdir_exist_ok sm = Inr d" and "get_processed_videos st = Inr pv"
      and "main env st sm = process_channels env CHANNELS (loaded st d pv)"
proof (cases "mkdir_exist_ok sm")
  case (Inl x)
  then show ?thesis using that(1) by (simp add: main_def start_def)
next
  case mk: (Inr d)
  show ?thesis
  proof (cases "get_processed_videos st")
    case (Inl x)
    with mk show ?thesis using that(2) by (simp add: main_def start_def)
  next
    case (Inr pv)
    with mk show ?thesis using that(3) by (simp add: main_def start_def loaded_def)
  qed
qed

lemma run_invariant:
  assumes "\<And>e s. e \<in> set (feed_entries env) \<Longrightarrow> P s \<Longrightarrow> P (process_entry env e s)"
    and "\<And>s out url. P s \<Longrightarrow>
             P (s\<lparr>stdout := stdout s @ [out], trace := trace s @ [FeedFetched url]\<rparr>)"
    and "P (loaded st d pv)"
  shows "P (process_channels env CHANNELS (loaded st d pv))"
  using assms unfolding feed_entries_def by (rule process_channels_invariant [where P = P])

section \<open>Record after write\<close>

lemma ordered_from_append:
  "ordered_from p (a @ b) \<longleftrightarrow> ordered_from p a \<and> ordered_from (last (p # a)) b"
  by (induction a arbitrary: p) auto

lemma ordered_from_split:
  "ordered_from p tr \<Longrightarrow> tr = pre @ RecordCalled v # post \<Longrightarrow>
     \<exists>f. last (p # pre) = ArtifactWritten v f"
  by (auto simp: ordered_from_append follows_def split: event.splits)

lemma record_after_write_split:
  assumes "record_after_write tr" and "tr = pre @ RecordCalled v # post"
  shows "\<exists>pre' f. pre = pre' @ [ArtifactWritten v f]"
proof -
  from assms obtain f where l: "last (LoadCalled # pre) = ArtifactWritten v f"
    unfolding record_after_write_def using ordered_from_split by blast
  then have "pre \<noteq> []" by auto
  with l have "pre = butlast pre @ [ArtifactWritten v f]"
    using append_butlast_last_id [of pre] by simp
  then show ?thesis by blast
qed

lemma record_after_write_snoc:
  "record_after_write tr \<Longrightarrow> (\<And>v. ev \<noteq> RecordCalled v) \<Longrightarrow> record_after_write (tr @ [ev])"
  by (auto simp: record_after_write_def ordered_from_append follows_def split: event.splits)

lemma record_after_write_step:
  assumes "record_after_write tr"
    and "evs = [] \<or> evs = [TranscriptRequested v] \<or>
         evs = [TranscriptRequested v, SummaryRequested v] \<or>
         evs = [TranscriptRequested v, SummaryRequested v, ArtifactWriteFailed v f] \<or>
         evs = [TranscriptRequested v, SummaryRequested v, ArtifactWritten v f, RecordCalled v]"
  shows "record_after_write (tr @ evs)"
  using assms
  by (auto simp: record_after_write_def ordered_from_append follows_def)

lemma process_entry_record_after_write:
  assumes "record_after_write (trace s)"
  shows "record_after_write (trace (process_entry env e s))"
proof -
  let ?v = "video_id e" and ?f = "sanitize_filename (title e)"
  have "\<exists>evs. trace (process_entry env e s) = trace s @ evs \<and>
          (evs = [] \<or> evs = [TranscriptRequested ?v] \<or>
           evs = [TranscriptRequested ?v, SummaryRequested ?v] \<or>
           evs = [TranscriptRequested ?v, SummaryRequested ?v, ArtifactWriteFailed ?v ?f] \<or>
           evs = [TranscriptRequested ?v, SummaryRequested ?v, ArtifactWritten ?v ?f,
                  RecordCalled ?v])"
  proof (cases env e s rule: process_entry_cases)
    case skip
    then show ?thesis by simp
  next
    case (unavailable evs out)
    have "trace (process_entry env e s) = trace s @ evs" by (simp add: unavailable(3))
    with unavailable(4) show ?thesis by blast
  next
    case (write_failed summary x)
    show ?thesis by (simp add: write_failed(4))
  next
    case (record_failed summary d x)
    show ?thesis by (simp add: record_failed(5))
  next
    case (recorded summary d st')
    show ?thesis by (simp add: recorded(5))
  qed
  then obtain evs where "trace (process_entry env e s) = trace s @ evs"
    and "evs = [] \<or> evs = [TranscriptRequested ?v] \<or>
           evs = [TranscriptRequested ?v, SummaryRequested ?v] \<or>
           evs = [TranscriptRequested ?v, SummaryRequested ?v, ArtifactWriteFailed ?v ?f] \<or>
           evs = [TranscriptRequested ?v, SummaryRequested ?v, ArtifactWritten ?v ?f,
                  RecordCalled ?v]"
    by blast
  with assms show ?thesis using record_after_write_step by metis
qed

lemma main_record_after_write: "record_after_write (trace (main env st sm))"
proof (cases env st sm rule: main_cases)
  case (no_dir x)
  show ?thesis by (simp add: no_dir(2) record_after_write_def)
next
  case (no_load d x)
  show ?thesis by (simp add: no_load(3) record_after_write_def follows_def)
next
  case (run d pv)
  have "record_after_write (trace (process_channels env CHANNELS (loaded st d pv)))"
  proof (rule run_invariant [where P = "\<lambda>s. record_after_write (trace s)"])
    show "record_after_write (trace (loaded st d pv))"
      by (simp add: loaded_def record_after_write_def follows_def)
  next
    fix e and s :: state assume "record_after_write (trace s)"
    then show "record_after_write (trace (process_entry env e s))"
      by (rule process_entry_record_after_write)
  next
    fix s :: state and out url assume "record_after_write (trace s)"
    then show "record_after_write
        (trace (s\<lparr>stdout := stdout s @ [out], trace := trace s @ [FeedFetched url]\<rparr>))"
      by (simp add: record_after_write_snoc)
  qed
  with run show ?thesis by simp
qed

section \<open>What one entry changes\<close>

lemma write_summary_Inr:
  assumes "write_summary env ttl summary d0 = Inr d"
  shows "\<exists>files. d0 = Dir files \<and> artifact_writable env (sanitize_filename ttl) \<and>
           d = Dir (files(sanitize_filename ttl \<mapsto> summary))"
  using assms by (cases d0) (auto simp: write_summary_def split: if_splits)

lemma process_entry_store_change:
  assumes "store (process_entry env e s) \<noteq> store s"
  shows "\<exists>files summary. summary_of env e = Some summary \<and>
           summaries (process_entry env e s) = Dir files \<and>
           files (sanitize_filename (title e)) = Some summary"
proof (cases env e s rule: process_entry_cases)
  case skip
  with assms show ?thesis by simp
next
  case (unavailable evs out)
  have "store (process_entry env e s) = store s" by (simp add: unavailable(3))
  with assms show ?thesis by simp
next
  case (write_failed summary x)
  have "store (process_entry env e s) = store s" by (simp add: write_failed(4))
  with assms show ?thesis by simp
next
  case (record_failed summary d x)
  have "store (process_entry env e s) = store s" by (simp add: record_failed(5))
  with assms show ?thesis by simp
next
  case (recorded summary d st')
  from write_summary_Inr [OF recorded(3)] obtain files where
    "d = Dir (files(sanitize_filename (title e) \<mapsto> summary))" by blast
  then have "summaries (process_entry env e s) = Dir (files(sanitize_filename (title e) \<mapsto> summary))"
    by (simp add: recorded(5))
  with recorded(2) show ?thesis by simp
qed

lemma process_entry_no_summary:
  assumes "summary_of env e = None"
  shows "store (process_entry env e s) = store s \<and>
     summaries (process_entry env e s) = summaries s \<and>
     processed_videos (process_entry env e s) = processed_videos s \<and>
     fault (process_entry env e s) = fault s \<and>
     filter is_write (trace (process_entry env e s)) = filter is_write (trace s) \<and>
     RecordCalled v \<notin> set (trace (process_entry env e s)) - set (trace s)"
proof (cases env e s rule: process_entry_cases)
  case skip
  then show ?thesis by simp
next
  case (unavailable evs out)
  from unavailable(4) show ?thesis
  proof
    assume "evs = [TranscriptRequested (video_id e)]"
    then show ?thesis by (simp add: unavailable(3))
  next
    assume "evs = [TranscriptRequested (video_id e), SummaryRequested (video_id e)]"
    then show ?thesis by (simp add: unavailable(3))
  qed
next
  case (write_failed summary x)
  with assms show ?thesis by simp
next
  case (record_failed summary d x)
  with assms show ?thesis by simp
next
  case (recorded summary d st')
  with assms show ?thesis by simp
qed

lemma process_entry_bounds:
  "processed_videos s \<subseteq> processed_videos (process_entry env e s) \<and>
   processed_videos (process_entry env e s) \<subseteq> insert (video_id e) (processed_videos s) \<and>
   (RecordCalled v \<in> set (trace (process_entry env e s)) \<longrightarrow>
      RecordCalled v \<in> set (trace s) \<or> v = video_id e) \<and>
   (is_dir (summaries s) \<longrightarrow> is_dir (summaries (process_entry env e s)))"
proof (cases env e s rule: process_entry_cases)
  case skip
  then show ?thesis by auto
next
  case (unavailable evs out)
  from unavailable(4) show ?thesis
  proof
    assume "evs = [TranscriptRequested (video_id e)]"
    then show ?thesis by (auto simp: unavailable(3))
  next
    assume "evs = [TranscriptRequested (video_id e), SummaryRequested (video_id e)]"
    then show ?thesis by (auto simp: unavailable(3))
  qed
next
  case (write_failed summary x)
  show ?thesis by (auto simp: write_failed(4))
next
  case (record_failed summary d x)
  from write_summary_Inr [OF record_failed(3)] have "is_dir d" by auto
  then show ?thesis by (auto simp: record_failed(5))
next
  case (recorded summary d st')
  from write_summary_Inr [OF recorded(3)] have "is_dir d" by auto
  then show ?thesis by (auto simp: recorded(5))
qed

section \<open>A video that yields no summary is never recorded\<close>

lemma process_entry_never_recorded:
  assumes "video_id e = v \<longrightarrow> summary_of env e = None"
    and "RecordCalled v \<notin> set (trace s) \<and> v \<notin> processed_videos s"
  shows "RecordCalled v \<notin> set (trace (process_entry env e s)) \<and>
         v \<notin> processed_videos (process_entry env e s)"
proof (cases "video_id e = v")
  case True
  with assms(1) have "summary_of env e = None" by simp
  from process_entry_no_summary [OF this, of s v] assms(2) show ?thesis by auto
next
  case False
  with process_entry_bounds [of s env e v] assms(2) show ?thesis by auto
qed

lemma run_never_recorded:
  assumes "\<forall>e\<in>set (feed_entries env). video_id e = v \<longrightarrow> summary_of env e = None"
    and "v \<notin> pv"
  shows "RecordCalled v \<notin> set (trace (process_channels env CHANNELS (loaded st d pv))) \<and>
         v \<notin> processed_videos (process_channels env CHANNELS (loaded st d pv))"
proof (rule run_invariant
    [where P = "\<lambda>s. RecordCalled v \<notin> set (trace s) \<and> v \<notin> processed_videos s"])
  show "RecordCalled v \<notin> set (trace (loaded st d pv)) \<and> v \<notin> processed_videos (loaded st d pv)"
    using assms(2) by (simp add: loaded_def)
next
  fix e and s :: state
  assume "e \<in> set (feed_entries env)"
    and "RecordCalled v \<notin> set (trace s) \<and> v \<notin> processed_videos s"
  with assms(1) show "RecordCalled v \<notin> set (trace (process_entry env e s)) \<and>
         v \<notin> processed_videos (process_entry env e s)"
    by (intro process_entry_never_recorded) auto
next
  fix s :: state and out url
  assume "RecordCalled v \<notin> set (trace s) \<and> v \<notin> processed_videos s"
  then show "RecordCalled v \<notin>
      set (trace (s\<lparr>stdout := stdout s @ [out], trace := trace s @ [FeedFetched url]\<rparr>)) \<and>
      v \<notin> processed_videos (s\<lparr>stdout := stdout s @ [out], trace := trace s @ [FeedFetched url]\<rparr>)"
    by simp
qed

lemma main_never_recorded:
  assumes "\<forall>e\<in>set (feed_entries env). video_id e = v \<longrightarrow> summary_of env e = None"
  shows "RecordCalled v \<notin> set (trace (main env st sm))"
    and "get_processed_videos st = Inr S \<Longrightarrow> v \<notin> S \<Longrightarrow>
           v \<notin> processed_videos (main env st sm)"
proof -
  show "RecordCalled v \<notin> set (trace (main env st sm))"
  proof (cases env st sm rule: main_cases)
    case (no_dir x)
    show ?thesis by (simp add: no_dir(2))
  next
    case (no_load d x)
    show ?thesis by (simp add: no_load(3))
  next
    case (run d pv)
    have "RecordCalled v \<notin> set (trace (loaded st d pv))" by (simp add: loaded_def)
    have "RecordCalled v \<notin> set (trace (process_channels env CHANNELS (loaded st d pv)))"
    proof (rule run_invariant [where P = "\<lambda>s. RecordCalled v \<notin> set (trace s)"])
      show "RecordCalled v \<notin> set (trace (loaded st d pv))" by (simp add: loaded_def)
    next
      fix e and s :: state
      assume e: "e \<in> set (feed_entries env)" and s: "RecordCalled v \<notin> set (trace s)"
      show "RecordCalled v \<notin> set (trace (process_entry env e s))"
      proof (cases "video_id e = v")
        case True
        with assms e have "summary_of env e = None" by simp
        from process_entry_no_summary [OF this, of s v] s show ?thesis by auto
      next
        case False
        with process_entry_bounds [of s env e v] s show ?thesis by auto
      qed
    next
      fix s :: state and out url
      assume "RecordCalled v \<notin> set (trace s)"
      then show "RecordCalled v \<notin>
        set (trace (s\<lparr>stdout := stdout s @ [out], trace := trace s @ [FeedFetched url]\<rparr>))"
        by simp
    qed
    with run show ?thesis by simp
  qed
next
  assume S: "get_processed_videos st = Inr S" and v: "v \<notin> S"
  show "v \<notin> processed_videos (main env st sm)"
  proof (cases env st sm rule: main_cases)
    case (no_dir x)
    show ?thesis by (simp add: no_dir(2))
  next
    case (no_load d x)
    show ?thesis by (simp add: no_load(3))
  next
    case (run d pv)
    with S v have "v \<notin> pv" by simp
    from run_never_recorded [OF assms this] run(3) show ?thesis by simp
  qed
qed

section \<open>The store and the set in memory agree\<close>

lemma process_entry_store_sync:
  assumes "well_formed_id (video_id e)"
    and "usable_store (store s) \<and> get_processed_videos (store s) = Inr (processed_videos s)"
  shows "usable_store (store (process_entry env e s)) \<and>
         get_processed_videos (store (process_entry env e s)) =
           Inr (processed_videos (process_entry env e s))"
proof (cases env e s rule: process_entry_cases)
  case skip
  with assms(2) show ?thesis by simp
next
  case (unavailable evs out)
  with assms(2) show ?thesis by simp
next
  case (write_failed summary x)
  with assms(2) show ?thesis by simp
next
  case (record_failed summary d x)
  with assms(2) show ?thesis by simp
next
  case (recorded summary d st')
  from assms(1) have v: "strip (video_id e) = video_id e" "LF \<notin> set (video_id e)"
    "CR \<notin> set (video_id e)" by (simp_all add: well_formed_id_def)
  from load_after_save [OF _ v(2,3), of "store s" "processed_videos s"] assms(2) recorded(4) v(1)
  have "usable_store st' \<and>
        get_processed_videos st' = Inr (insert (video_id e) (processed_videos s))"
    by auto
  then show ?thesis by (simp add: recorded(5))
qed

lemma run_store_sync:
  assumes "\<forall>e\<in>set (feed_entries env). well_formed_id (video_id e)"
    and "usable_store st" and "get_processed_videos st = Inr pv"
  shows "usable_store (store (process_channels env CHANNELS (loaded st d pv))) \<and>
         get_processed_videos (store (process_channels env CHANNELS (loaded st d pv))) =
           Inr (processed_videos (process_channels env CHANNELS (loaded st d pv)))"
proof (rule run_invariant
    [where P = "\<lambda>s. usable_store (store s) \<and>
                  get_processed_videos (store s) = Inr (processed_videos s)"])
  show "usable_store (store (loaded st d pv)) \<and>
        get_processed_videos (store (loaded st d pv)) = Inr (processed_videos (loaded st d pv))"
    using assms(2,3) by (simp add: loaded_def)
next
  fix e and s :: state
  assume "e \<in> set (feed_entries env)"
    and "usable_store (store s) \<and> get_processed_videos (store s) = Inr (processed_videos s)"
  with assms(1) show "usable_store (store (process_entry env e s)) \<and>
         get_processed_videos (store (process_entry env e s)) =
           Inr (processed_videos (process_entry env e s))"
    by (intro process_entry_store_sync) auto
next
  fix s :: state and out url
  assume "usable_store (store s) \<and> get_processed_videos (store s) = Inr (processed_videos s)"
  then show "usable_store
      (store (s\<lparr>stdout := stdout s @ [out], trace := trace s @ [FeedFetched url]\<rparr>)) \<and>
     get_processed_videos
      (store (s\<lparr>stdout := stdout s @ [out], trace := trace s @ [FeedFetched url]\<rparr>)) =
     Inr (processed_videos
      (s\<lparr>stdout := stdout s @ [out], trace := trace s @ [FeedFetched url]\<rparr>))"
    by simp
qed

lemma main_absent_from_store:
  assumes "\<forall>e\<in>set (feed_entries env). well_formed_id (video_id e)"
    and "\<forall>e\<in>set (feed_entries env). video_id e = v \<longrightarrow> summary_of env e = None"
    and "usable_store st" and "get_processed_videos st = Inr S" and "v \<notin> S"
  shows "\<exists>S'. get_processed_videos (store (main env st sm)) = Inr S' \<and> v \<notin> S'"
proof (cases env st sm rule: main_cases)
  case (no_dir x)
  with assms(4,5) show ?thesis by simp
next
  case (no_load d x)
  with assms(4) show ?thesis by simp
next
  case (run d pv)
  with assms(4,5) have pv: "get_processed_videos st = Inr pv" "v \<notin> pv" by simp_all
  from run_store_sync [OF assms(1,3) pv(1), of d] run_never_recorded [OF assms(2) pv(2), of st d]
  show ?thesis by (simp add: run(3))
qed

section \<open>The example world\<close>

lemma example_urls_differ: "snd (hd (tl CHANNELS)) \<noteq> snd (hd CHANNELS)"
  by (simp add: CHANNELS_def ascii_def)

lemma example_feed_entries: "feed_entries example_env = example_feed"
  using example_urls_differ by (simp add: feed_entries_def example_env_def CHANNELS_def)

lemma example_ids_well_formed: "well_formed_id (ascii ''v1'') \<and> well_formed_id (ascii ''v2'')"
  by (simp add: well_formed_id_def ascii_def strip_def isspace_def LF_def CR_def)

lemma example_feed_well_formed:
  "\<forall>e\<in>set (feed_entries example_env). well_formed_id (video_id e)"
  using example_ids_well_formed by (simp add: example_feed_entries example_feed_def)

lemma example_no_model_feed: "feed_entries example_env_no_model = example_feed"
  using example_feed_entries
  by (simp add: feed_entries_def example_env_no_model_def)

section \<open>Record after success\<close>

text \<open>
  C1: in every run, each call of the record operation for a video comes directly after
  the successful write of the summary artifact of that same video: whatever precedes a
  \<open>RecordCalled v\<close> in the trace of \<open>main\<close> ends with \<open>ArtifactWritten v f\<close>.
  And the store is never updated before the artifact is written: if the processing of an
  entry changes the store at all, the summaries directory then holds the artifact of that
  entry, with the summary the services gave for it.
\<close>

theorem record_only_after_artifact_written:
  "(trace (main env st sm) = pre @ RecordCalled v # post \<longrightarrow>
      (\<exists>pre' f. pre = pre' @ [ArtifactWritten v f])) \<and>
   (store (process_entry env e s) \<noteq> store s \<longrightarrow>
      (\<exists>files summary. summary_of env e = Some summary \<and>
         summaries (process_entry env e s) = Dir files \<and>
         files (sanitize_filename (title e)) = Some summary))"
  using record_after_write_split [OF main_record_after_write] process_entry_store_change
  by blast

theorem record_only_after_artifact_written_witness:
  "trace (main example_env Missing NoDir) =
     [LoadCalled, FeedFetched (snd (hd CHANNELS)),
      TranscriptRequested (ascii ''v1''), TranscriptRequested (ascii ''v2''),
      SummaryRequested (ascii ''v2''), ArtifactWritten (ascii ''v2'') (ascii ''Update'')]
     @ RecordCalled (ascii ''v2'') # [FeedFetched (snd (hd (tl CHANNELS)))] \<and>
   (\<exists>pre' f.
      [LoadCalled, FeedFetched (snd (hd CHANNELS)),
       TranscriptRequested (ascii ''v1''), TranscriptRequested (ascii ''v2''),
       SummaryRequested (ascii ''v2''), ArtifactWritten (ascii ''v2'') (ascii ''Update'')]
      = pre' @ [ArtifactWritten (ascii ''v2'') f]) \<and>
   store (process_entry example_env \<lparr>video_id = ascii ''v2'', title = ascii ''Update''\<rparr>
            (loaded Missing (Dir Map.empty) {}))
     \<noteq> store (loaded Missing (Dir Map.empty) {}) \<and>
   (\<exists>files summary.
      summary_of example_env \<lparr>video_id = ascii ''v2'', title = ascii ''Update''\<rparr> = Some summary \<and>
      summaries (process_entry example_env \<lparr>video_id = ascii ''v2'', title = ascii ''Update''\<rparr>
            (loaded Missing (Dir Map.empty) {})) = Dir files \<and>
      files (sanitize_filename (title \<lparr>video_id = ascii ''v2'', title = ascii ''Update''\<rparr>))
        = Some summary)"
proof -
  let ?pre = "[LoadCalled, FeedFetched (snd (hd CHANNELS)),
      TranscriptRequested (ascii ''v1''), TranscriptRequested (ascii ''v2''),
      SummaryRequested (ascii ''v2''), ArtifactWritten (ascii ''v2'') (ascii ''Update'')]"
  let ?e = "\<lparr>video_id = ascii ''v2'', title = ascii ''Update''\<rparr>"
  let ?s = "loaded Missing (Dir Map.empty) {}"
  have h1: "trace (main example_env Missing NoDir) =
     ?pre @ RecordCalled (ascii ''v2'') # [FeedFetched (snd (hd (tl CHANNELS)))]"
    by code_simp
  have h2: "store (process_entry example_env ?e ?s) \<noteq> store ?s"
    by code_simp
  have 1: "\<exists>pre' f. ?pre = pre' @ [ArtifactWritten (ascii ''v2'') f]"
    using record_only_after_artifact_written
      [of example_env Missing NoDir ?pre "ascii ''v2''" "[FeedFetched (snd (hd (tl CHANNELS)))]"]
      h1 by blast
  have 2: "\<exists>files summary. summary_of example_env ?e = Some summary \<and>
      summaries (process_entry example_env ?e ?s) = Dir files \<and>
      files (sanitize_filename (title ?e)) = Some summary"
    using record_only_after_artifact_written [where env = example_env and e = ?e and s = ?s] h2
    by blast
  from h1 h2 1 2 show ?thesis by blast
qed

section \<open>Failures of the services\<close>



text \<open>
  C7, amended: when the model fails on the prompt of a video, \<open>summarize_text\<close> prints
  the error line and returns \<open>None\<close>; the processing of the entry adds that line and
  the two requests to the state and nothing else, so the store, the summaries and the set
  in memory stay as they are. When the model fails on the prompt of every entry of the
  feeds that carries the identifier of the video, the record operation is never called for
  the identifier in the whole run and an identifier the load did not return is not in the
  processed set at the end; when moreover the store is absent, or a readable and writable
  file that is empty or ends in a line break, and the identifiers of the feeds have no
  white space at either end and no line break inside, an identifier that was not in the
  store before the run is not in what the store loads to after the run.
\<close>

theorem summarization_failure_skips_video:
  assumes "get_transcript_api env (video_id e) = Inr items"
    and "generate_content env (final_prompt (title e) (join (ascii '' '') (map item_text items)))
           = Inl x"
  shows "summarize_text env (join (ascii '' '') (map item_text items)) (title e) =
      (None, [ascii ''Error: Could not summarize with Gemini API. Reason: '' @ exn_str x]) \<and>
    (video_id e \<notin> processed_videos s \<longrightarrow>
       process_entry env e s =
         s\<lparr>stdout := stdout s @
              [ascii ''Error: Could not summarize with Gemini API. Reason: '' @ exn_str x],
           trace := trace s @
              [TranscriptRequested (video_id e), SummaryRequested (video_id e)]\<rparr>) \<and>
    store (process_entry env e s) = store s \<and>
    summaries (process_entry env e s) = summaries s \<and>
    processed_videos (process_entry env e s) = processed_videos s \<and>
    ((\<forall>e'\<in>set (feed_entries env). video_id e' = video_id e \<longrightarrow>
        (\<exists>x'. generate_content env
                 (final_prompt (title e') (join (ascii '' '') (map item_text items))) = Inl x')) \<longrightarrow>
       RecordCalled (video_id e) \<notin> set (trace (main env st sm)) \<and>
       (get_processed_videos st = Inr S \<and> video_id e \<notin> S \<longrightarrow>
          video_id e \<notin> processed_videos (main env st sm)) \<and>
       (usable_store st \<and> (\<forall>e'\<in>set (feed_entries env). well_formed_id (video_id e')) \<and>
        get_processed_videos st = Inr S \<and> video_id e \<notin> S \<longrightarrow>
          (\<exists>S'. get_processed_videos (store (main env st sm)) = Inr S' \<and> video_id e \<notin> S')))"
proof -
  let ?t = "join (ascii '' '') (map item_text items)"
  let ?line = "ascii ''Error: Could not summarize with Gemini API. Reason: '' @ exn_str x"
  have gt: "get_transcript env (video_id e) = (Some ?t, [])"
    using assms(1) by (simp add: get_transcript_def)
  have st: "summarize_text env ?t (title e) = (None, [?line])"
    using assms(2) by (simp add: summarize_text_def)
  have pe: "video_id e \<notin> processed_videos s \<longrightarrow>
       process_entry env e s =
         s\<lparr>stdout := stdout s @ [?line],
           trace := trace s @
              [TranscriptRequested (video_id e), SummaryRequested (video_id e)]\<rparr>"
    by (simp add: process_entry_def summarize_step_def gt st)
  have none: "summary_of env e' = None"
    if "video_id e' = video_id e"
      and "generate_content env (final_prompt (title e') ?t) = Inl x'" for e' x'
    using that gt by (simp add: summary_of_def summarize_text_def)
  note same = process_entry_no_summary [OF none [OF refl assms(2)], of s]
  have run: "RecordCalled (video_id e) \<notin> set (trace (main env st sm)) \<and>
       (get_processed_videos st = Inr S \<and> video_id e \<notin> S \<longrightarrow>
          video_id e \<notin> processed_videos (main env st sm)) \<and>
       (usable_store st \<and> (\<forall>e'\<in>set (feed_entries env). well_formed_id (video_id e')) \<and>
        get_processed_videos st = Inr S \<and> video_id e \<notin> S \<longrightarrow>
          (\<exists>S'. get_processed_videos (store (main env st sm)) = Inr S' \<and> video_id e \<notin> S'))"
    if every: "\<forall>e'\<in>set (feed_entries env). video_id e' = video_id e \<longrightarrow>
        (\<exists>x'. generate_content env (final_prompt (title e') ?t) = Inl x')"
  proof -
    from every none have all:
      "\<forall>e'\<in>set (feed_entries env). video_id e' = video_id e \<longrightarrow> summary_of env e' = None"
      by blast
    from main_never_recorded [OF all] main_absent_from_store [OF _ all]
    show ?thesis by blast
  qed
  from st pe same run show ?thesis by blast
qed

theorem summarization_failure_skips_video_witness:
  "get_transcript_api example_env_no_model
     (video_id \<lparr>video_id = ascii ''v2'', title = ascii ''Update''\<rparr>)
     = Inr [\<lparr>item_text = ascii ''hello''\<rparr>, \<lparr>item_text = ascii ''world''\<rparr>] \<and>
   generate_content example_env_no_model
     (final_prompt (title \<lparr>video_id = ascii ''v2'', title = ascii ''Update''\<rparr>)
        (join (ascii '' '')
           (map item_text [\<lparr>item_text = ascii ''hello''\<rparr>, \<lparr>item_text = ascii ''world''\<rparr>])))
     = Inl (ServiceError (ascii ''quota exceeded'')) \<and>
   usable_store Missing \<and>
   get_processed_videos Missing = Inr {} \<and>
   RecordCalled (video_id \<lparr>video_id = ascii ''v2'', title = ascii ''Update''\<rparr>)
     \<notin> set (trace (main example_env_no_model Missing NoDir)) \<and>
   video_id \<lparr>video_id = ascii ''v2'', title = ascii ''Update''\<rparr>
     \<notin> processed_videos (main example_env_no_model Missing NoDir) \<and>
   (\<exists>S'. get_processed_videos (store (main example_env_no_model Missing NoDir)) = Inr S' \<and>
      video_id \<lparr>video_id = ascii ''v2'', title = ascii ''Update''\<rparr> \<notin> S')"
proof -
  let ?e = "\<lparr>video_id = ascii ''v2'', title = ascii ''Update''\<rparr>"
  let ?items = "[\<lparr>item_text = ascii ''hello''\<rparr>, \<lparr>item_text = ascii ''world''\<rparr>]"
  have h1: "get_transcript_api example_env_no_model (video_id ?e) = Inr ?items"
    by (simp add: example_env_no_model_def example_env_def)
  have h2: "generate_content example_env_no_model
       (final_prompt (title ?e) (join (ascii '' '') (map item_text ?items)))
     = Inl (ServiceError (ascii ''quota exceeded''))"
    by (simp add: example_env_no_model_def)
  have every: "\<forall>e'\<in>set (feed_entries example_env_no_model).
      video_id e' = video_id ?e \<longrightarrow>
        (\<exists>x'. generate_content example_env_no_model
                 (final_prompt (title e') (join (ascii '' '') (map item_text ?items))) = Inl x')"
    by (simp add: example_env_no_model_def)
  have wf: "\<forall>e'\<in>set (feed_entries example_env_no_model). well_formed_id (video_id e')"
    using example_feed_well_formed by (simp add: example_no_model_feed example_feed_entries)
  have st: "usable_store Missing \<and> get_processed_videos Missing = Inr {} \<and> video_id ?e \<notin> {}"
    by simp
  note t = summarization_failure_skips_video
    [OF h1 h2, of "loaded Missing (Dir Map.empty) {}" Missing NoDir "{}"]
  from t every have 1:
    "RecordCalled (video_id ?e) \<notin> set (trace (main example_env_no_model Missing NoDir))"
    by blast
  from t every st have 2:
    "video_id ?e \<notin> processed_videos (main example_env_no_model Missing NoDir)"
    by blast
  from t every st wf have 3:
    "\<exists>S'. get_processed_videos (store (main example_env_no_model Missing NoDir)) = Inr S' \<and>
      video_id ?e \<notin> S'"
    by blast
  from h1 h2 st 1 2 3 show ?thesis by blast
qed

section \<open>Running again\<close>
















lemmas example_run_defs = main_def start_def process_entry_def summarize_step_def
  persist_and_mark_def mark_processed_def get_transcript_def summarize_text_def
  write_summary_def Let_def example_env_def example_env_later_def example_feed_def CHANNELS_def
  sanitize_filename_def forbidden_def ascii_def read_lines_def strip_def isspace_def
  LF_def CR_def






section \<open>Runs in which a failed video ends up in the store\<close>

lemmas world_run_defs = example_run_defs example_world_def glued_feed_def spaced_feed_def
  retitled_feed_def final_prompt_def

lemma example_loads:
  "get_processed_videos (Regular True True (ascii ''a'')) = Inr {ascii ''a''} \<and>
   get_processed_videos (Regular True True (ascii ''ab'' @ [LF])) = Inr {ascii ''ab''} \<and>
   get_processed_videos (Regular True True (ascii ''a '' @ [LF])) = Inr {ascii ''a''}"
  by (simp add: ascii_def LF_def CR_def read_lines_def strip_def isspace_def)



lemma retitled_refused:
  "store (main (example_world retitled_feed None (Some (ascii ''Update''))) Missing NoDir)
     = Regular True True (ascii ''v1'' @ [LF]) \<and>
   trace (main (example_world retitled_feed None (Some (ascii ''Update''))) Missing NoDir) =
     [LoadCalled, FeedFetched (snd (hd CHANNELS)),
      TranscriptRequested (ascii ''v1''), SummaryRequested (ascii ''v1''),
      TranscriptRequested (ascii ''v1''), SummaryRequested (ascii ''v1''),
      ArtifactWritten (ascii ''v1'') (ascii ''Intro''), RecordCalled (ascii ''v1''),
      FeedFetched (snd (hd (tl CHANNELS)))]"
  by (simp add: world_run_defs)

lemma glued_refused:
  "store (main (example_world glued_feed None (Some (ascii ''Update'')))
       (Regular True True (ascii ''a'')) NoDir) = Regular True True (ascii ''ab'' @ [LF]) \<and>
   trace (main (example_world glued_feed None (Some (ascii ''Update'')))
       (Regular True True (ascii ''a'')) NoDir) =
     [LoadCalled, FeedFetched (snd (hd CHANNELS)),
      TranscriptRequested (ascii ''b''), SummaryRequested (ascii ''b''),
      ArtifactWritten (ascii ''b'') (ascii ''Intro''), RecordCalled (ascii ''b''),
      TranscriptRequested (ascii ''ab''), SummaryRequested (ascii ''ab''),
      FeedFetched (snd (hd (tl CHANNELS)))]"
  by (simp add: world_run_defs)

lemma spaced_refused:
  "store (main (example_world spaced_feed None (Some (ascii ''Update''))) Missing NoDir)
     = Regular True True (ascii ''a '' @ [LF]) \<and>
   trace (main (example_world spaced_feed None (Some (ascii ''Update''))) Missing NoDir) =
     [LoadCalled, FeedFetched (snd (hd CHANNELS)),
      TranscriptRequested (ascii ''a ''), SummaryRequested (ascii ''a ''),
      ArtifactWritten (ascii ''a '') (ascii ''Intro''), RecordCalled (ascii ''a ''),
      TranscriptRequested (ascii ''a''), SummaryRequested (ascii ''a''),
      FeedFetched (snd (hd (tl CHANNELS)))]"
  by (simp add: world_run_defs)


text \<open>
  C7, as stated: a video whose summarization fails is absent from the store after the run.
  It fails where the feed lists the video under two titles and the model refuses only the
  prompt of the first: the second entry is summarized and \<open>v1\<close> is recorded. And it
  fails, as for the transcript, where the record does not end in a line break and where an
  identifier ends with white space: \<open>record\<close> is never called for the video, yet the
  store then loads to a set that holds its identifier.
\<close>

theorem summarization_failure_counterexample:
  "get_transcript_api (example_world retitled_feed None (Some (ascii ''Update''))) (ascii ''v1'')
     = Inr [\<lparr>item_text = ascii ''hello''\<rparr>] \<and>
   generate_content (example_world retitled_feed None (Some (ascii ''Update'')))
       (final_prompt (ascii ''Update'') (ascii ''hello''))
     = Inl (ServiceError (ascii ''quota exceeded'')) \<and>
   get_processed_videos Missing = Inr {} \<and>
   trace (main (example_world retitled_feed None (Some (ascii ''Update''))) Missing NoDir) =
     [LoadCalled, FeedFetched (snd (hd CHANNELS)),
      TranscriptRequested (ascii ''v1''), SummaryRequested (ascii ''v1''),
      TranscriptRequested (ascii ''v1''), SummaryRequested (ascii ''v1''),
      ArtifactWritten (ascii ''v1'') (ascii ''Intro''), RecordCalled (ascii ''v1''),
      FeedFetched (snd (hd (tl CHANNELS)))] \<and>
   store (main (example_world retitled_feed None (Some (ascii ''Update''))) Missing NoDir)
     = Regular True True (ascii ''v1'' @ [LF]) \<and>
   get_processed_videos (Regular True True (ascii ''a'')) = Inr {ascii ''a''} \<and>
   ascii ''ab'' \<notin> {ascii ''a''} \<and>
   trace (main (example_world glued_feed None (Some (ascii ''Update'')))
       (Regular True True (ascii ''a'')) NoDir) =
     [LoadCalled, FeedFetched (snd (hd CHANNELS)),
      TranscriptRequested (ascii ''b''), SummaryRequested (ascii ''b''),
      ArtifactWritten (ascii ''b'') (ascii ''Intro''), RecordCalled (ascii ''b''),
      TranscriptRequested (ascii ''ab''), SummaryRequested (ascii ''ab''),
      FeedFetched (snd (hd (tl CHANNELS)))] \<and>
   store (main (example_world glued_feed None (Some (ascii ''Update'')))
       (Regular True True (ascii ''a'')) NoDir) = Regular True True (ascii ''ab'' @ [LF]) \<and>
   get_processed_videos (Regular True True (ascii ''ab'' @ [LF])) = Inr {ascii ''ab''} \<and>
   ascii ''ab'' \<in> {ascii ''ab''} \<and>
   trace (main (example_world spaced_feed None (Some (ascii ''Update''))) Missing NoDir) =
     [LoadCalled, FeedFetched (snd (hd CHANNELS)),
      TranscriptRequested (ascii ''a ''), SummaryRequested (ascii ''a ''),
      ArtifactWritten (ascii ''a '') (ascii ''Intro''), RecordCalled (ascii ''a ''),
      TranscriptRequested (ascii ''a''), SummaryRequested (ascii ''a''),
      FeedFetched (snd (hd (tl CHANNELS)))] \<and>
   store (main (example_world spaced_feed None (Some (ascii ''Update''))) Missing NoDir)
     = Regular True True (ascii ''a '' @ [LF]) \<and>
   get_processed_videos (Regular True True (ascii ''a '' @ [LF])) = Inr {ascii ''a''} \<and>
   ascii ''a'' \<in> {ascii ''a''}"
proof -
  have 1: "get_transcript_api (example_world retitled_feed None (Some (ascii ''Update'')))
       (ascii ''v1'') = Inr [\<lparr>item_text = ascii ''hello''\<rparr>]"
    by (simp add: example_world_def)
  have 2: "generate_content (example_world retitled_feed None (Some (ascii ''Update'')))
       (final_prompt (ascii ''Update'') (ascii ''hello''))
     = Inl (ServiceError (ascii ''quota exceeded''))"
    by (simp add: example_world_def)
  have 3: "ascii ''ab'' \<notin> {ascii ''a''}" by (simp add: ascii_def)
  have 4: "get_processed_videos Missing = Inr {}" by simp
  from 1 2 3 4 example_loads retitled_refused glued_refused spaced_refused
  show ?thesis by blast
qed

end
